theory Spec2Isabelle
  imports Main "HOL-Library.Word"
begin

unbundle bit_operations_syntax

section \<open>Python values\<close>

text \<open>
  A Python \<open>str\<close> is a sequence of Unicode code points, and the source depends on that:
  its labels are CJK text, \<open>str.strip\<close> removes Unicode white space, and
  \<open>crypto_utils.encrypt\<close> counts characters where it handles bytes. A string is
  therefore a list of code points; \<open>ascii\<close> turns an ASCII literal into one.
\<close>

type_synonym pystr = "nat list"

definition ascii :: "string \<Rightarrow> pystr" where
  "ascii s = map of_char s"

text \<open>
  A float is only ever tested for truth and printed by the source; it is kept as
  \<open>m * 2 ^ e\<close> or one of the three special values \<open>json.loads\<close> accepts.
\<close>

datatype pyfloat = Finite int int | PosInf | NegInf | NaN

text \<open>What \<open>json.loads\<close> returns. A \<open>dict\<close> keeps its insertion order.\<close>

datatype json =
    JNull
  | JBool bool
  | JInt int
  | JFloat pyfloat
  | JStr pystr
  | JList "json list"
  | JDict "(pystr \<times> json) list"

datatype error =
    JSONDecodeError
  | TypeError
  | AttributeError
  | UnicodeEncodeError
  | UnicodeDecodeError
  | ValueError
  | RecursionError
  | Base64Error
  | RemoteError

text \<open>Truth value testing: \<open>if v\<close>, \<open>not v\<close>, \<open>a or b\<close>.\<close>

fun truthy :: "json \<Rightarrow> bool" where
  "truthy JNull = False"
| "truthy (JBool b) = b"
| "truthy (JInt i) = (i \<noteq> 0)"
| "truthy (JFloat f) = (case f of Finite m e \<Rightarrow> m \<noteq> 0 | _ \<Rightarrow> True)"
| "truthy (JStr s) = (s \<noteq> [])"
| "truthy (JList xs) = (xs \<noteq> [])"
| "truthy (JDict kvs) = (kvs \<noteq> [])"

text \<open>\<open>a or b\<close> where evaluating \<open>b\<close> cannot raise.\<close>

definition py_or :: "json \<Rightarrow> json \<Rightarrow> json" where
  "py_or a b = (if truthy a then a else b)"

text \<open>\<open>d.get(k)\<close> and \<open>d.get(k, default)\<close> on a \<open>dict\<close>.\<close>

definition dict_get :: "(pystr \<times> json) list \<Rightarrow> string \<Rightarrow> json" where
  "dict_get kvs k = (case map_of kvs (ascii k) of Some v \<Rightarrow> v | None \<Rightarrow> JNull)"

definition dict_get_default :: "(pystr \<times> json) list \<Rightarrow> string \<Rightarrow> json \<Rightarrow> json" where
  "dict_get_default kvs k d = (case map_of kvs (ascii k) of Some v \<Rightarrow> v | None \<Rightarrow> d)"

text \<open>\<open>x.get(k, default)\<close> on any value: only a \<open>dict\<close> has \<open>get\<close>.\<close>

definition py_get :: "json \<Rightarrow> string \<Rightarrow> json \<Rightarrow> error + json" where
  "py_get x k d = (case x of JDict kvs \<Rightarrow> Inr (dict_get_default kvs k d) | _ \<Rightarrow> Inl AttributeError)"

text \<open>\<open>for x in v\<close>: a list gives its elements, a dict its keys, a string its characters.\<close>

definition py_iter :: "json \<Rightarrow> error + json list" where
  "py_iter v = (case v of
      JList xs \<Rightarrow> Inr xs
    | JDict kvs \<Rightarrow> Inr (map (\<lambda>(k, _). JStr k) kvs)
    | JStr s \<Rightarrow> Inr (map (\<lambda>c. JStr [c]) s)
    | _ \<Rightarrow> Inl TypeError)"

text \<open>
  \<open>json.loads\<close> is the standard library's; what it does with a text is a parameter
  \<open>loads\<close>: the parsed value, or the exception it raises. That is
  \<open>JSONDecodeError\<close> for a text that is not JSON, but not always: an integer literal
  beyond the interpreter's digit limit raises a plain \<open>ValueError\<close> and nesting beyond
  the recursion limit raises \<open>RecursionError\<close>, also in a text that is not JSON. Given
  anything but text it raises \<open>TypeError\<close>.
\<close>

type_synonym loads = "pystr \<Rightarrow> error + json"

definition json_loads :: "loads \<Rightarrow> json \<Rightarrow> error + json" where
  "json_loads loads v = (case v of JStr s \<Rightarrow> loads s | _ \<Rightarrow> Inl TypeError)"

subsection \<open>String methods\<close>

definition startswith :: "pystr \<Rightarrow> string \<Rightarrow> bool" where
  "startswith s p = (take (length p) s = ascii p)"

text \<open>\<open>s.split(",")\<close>: the pieces between separators, empty ones included.\<close>

fun split :: "nat \<Rightarrow> pystr \<Rightarrow> pystr list" where
  "split sep [] = [[]]"
| "split sep (c # cs) =
     (if c = sep then [] # split sep cs
      else (case split sep cs of p # ps \<Rightarrow> (c # p) # ps | [] \<Rightarrow> [[c]]))"

text \<open>The code points for which \<open>str.isspace\<close> holds, which \<open>str.strip()\<close> removes.\<close>

definition isspace :: "nat \<Rightarrow> bool" where
  "isspace c = ((9 \<le> c \<and> c \<le> 13) \<or> (28 \<le> c \<and> c \<le> 32) \<or> c = 133 \<or> c = 160
     \<or> c = 5760 \<or> (8192 \<le> c \<and> c \<le> 8202) \<or> c = 8232 \<or> c = 8233 \<or> c = 8239
     \<or> c = 8287 \<or> c = 12288)"

definition strip :: "pystr \<Rightarrow> pystr" where
  "strip s = rev (dropWhile isspace (rev (dropWhile isspace s)))"

text \<open>\<open>str(n)\<close> for a natural number, as the f-string \<open>f"attachment_{i+1}"\<close> prints it.\<close>

fun str_nat :: "nat \<Rightarrow> pystr" where
  "str_nat n = (if n < 10 then [48 + n] else str_nat (n div 10) @ [48 + n mod 10])"

declare str_nat.simps [simp del]

section \<open>Category Router (handlers/approval.py)\<close>

text \<open>
  The four mailbox settings of \<open>config.Settings\<close> the router reads; each defaults to
  the empty string.
\<close>

record Settings =
  email_feiyongbaoxiao_test :: pystr
  email_fukuan_test :: pystr
  email_feiyongbaoxiao :: pystr
  email_fukuan_ruidian_duigong_shic :: pystr

text \<open>The four approval names, as code points.\<close>

definition name_feiyongbaoxiao :: pystr where
  "name_feiyongbaoxiao = [36153, 29992, 25253, 38144]"

definition name_fukuan :: pystr where
  "name_fukuan = [20184, 27454]"

definition name_fukuan_ruidian_duigong_shic :: pystr where
  "name_fukuan_ruidian_duigong_shic =
     name_fukuan @ [45, 29790, 20856, 23545, 20844, 45] @ ascii ''SHIC''"

text \<open>
  \<open>APPROVAL_EMAIL_ATTRS\<close>: approval name to settings attribute; the attribute is
  given by its selector.
\<close>

definition APPROVAL_EMAIL_ATTRS :: "(pystr \<times> (Settings \<Rightarrow> pystr)) list" where
  "APPROVAL_EMAIL_ATTRS =
     [(name_feiyongbaoxiao @ ascii ''test'', email_feiyongbaoxiao_test),
      (name_fukuan @ ascii ''test'', email_fukuan_test),
      (name_feiyongbaoxiao, email_feiyongbaoxiao),
      (name_fukuan_ruidian_duigong_shic, email_fukuan_ruidian_duigong_shic)]"

definition get_target_email :: "Settings \<Rightarrow> pystr \<Rightarrow> pystr option" where
  "get_target_email settings approval_name =
     (case map_of APPROVAL_EMAIL_ATTRS approval_name of
        None \<Rightarrow> None
      | Some attr \<Rightarrow> (let email = attr settings in if email \<noteq> [] then Some email else None))"

section \<open>Attachment extraction (services/attachment.py)\<close>

type_synonym byte = "8 word"

text \<open>
  The dataclass \<open>AttachmentInfo\<close>. Its fields are annotated \<open>str\<close>, but they are
  filled with whatever the form holds, so they are JSON values here.
\<close>

record AttachmentInfo =
  file_token :: json
  name :: json
  mime_type :: json
  content :: "byte list option"
  download_url :: json

text \<open>The candidate file names of a control, from its \<open>ext\<close> (lines 80 to 91).\<close>

definition ext_filenames :: "json \<Rightarrow> json list" where
  "ext_filenames ext = (case ext of
      JStr s \<Rightarrow> (if s \<noteq> [] then map (\<lambda>n. JStr (strip n)) (split 44 s) else [])
    | JDict kvs \<Rightarrow>
        (let n = py_or (dict_get kvs ''name'') (dict_get kvs ''file_name'')
         in if truthy n then [n] else [])
    | JList xs \<Rightarrow> xs
    | _ \<Rightarrow> [])"

definition fallback_name :: "nat \<Rightarrow> json" where
  "fallback_name i = JStr (ascii ''attachment_'' @ str_nat (i + 1))"

text \<open>
  One pass of the loop over \<open>enumerate(files)\<close> (lines 95 to 123): the descriptors
  the entry \<open>file_info\<close> at position \<open>i\<close> adds, none or one.
\<close>

definition file_descriptor :: "json list \<Rightarrow> nat \<Rightarrow> json \<Rightarrow> AttachmentInfo list" where
  "file_descriptor filenames i file_info = (case file_info of
      JStr s \<Rightarrow>
        (if startswith s ''http'' then
           [\<lparr>file_token = JStr [],
             name = (if i < length filenames then filenames ! i else fallback_name i),
             mime_type = JStr [], content = None, download_url = JStr s\<rparr>]
         else [])
    | JDict kvs \<Rightarrow>
        [\<lparr>file_token = py_or (py_or (dict_get kvs ''file_token'') (dict_get kvs ''token'')) (JStr []),
          name = (if truthy (dict_get kvs ''name'') then dict_get kvs ''name''
                  else dict_get_default kvs ''file_name'' (fallback_name i)),
          mime_type = dict_get_default kvs ''mime_type'' (JStr []),
          content = None,
          download_url = py_or (py_or (dict_get kvs ''url'') (dict_get kvs ''download_url'')) (JStr [])\<rparr>]
    | _ \<Rightarrow> [])"

definition files_descriptors :: "json list \<Rightarrow> json \<Rightarrow> AttachmentInfo list" where
  "files_descriptors filenames v =
     (let files = (case v of JList xs \<Rightarrow> xs | _ \<Rightarrow> [v])
      in concat (map (\<lambda>(i, file_info). file_descriptor filenames i file_info) (enumerate 0 files)))"

text \<open>
  What an attachment control adds to the list (lines 60 to 123); \<open>control\<close> is the
  control's \<open>dict\<close>. Of what \<open>json.loads\<close> raises on the value, only
  \<open>JSONDecodeError\<close> is caught.
\<close>

definition attachment_descriptors ::
  "loads \<Rightarrow> (pystr \<times> json) list \<Rightarrow> error + AttachmentInfo list" where
  "attachment_descriptors loads control =
     (let v = dict_get control ''value'' in
      if \<not> truthy v then Inr []
      else (case v of
          JStr s \<Rightarrow>
            (case loads s of
               Inl JSONDecodeError \<Rightarrow>
                 (if startswith s ''http'' then
                    Inr [\<lparr>file_token = JStr [], name = JStr (ascii ''attachment''),
                          mime_type = JStr [], content = None, download_url = JStr s\<rparr>]
                  else Inr [])
             | Inl e \<Rightarrow> Inl e
             | Inr parsed \<Rightarrow>
                 Inr (files_descriptors (ext_filenames (dict_get control ''ext'')) parsed))
        | _ \<Rightarrow> Inr (files_descriptors (ext_filenames (dict_get control ''ext'')) v)))"

text \<open>
  \<open>_extract_attachments_recursive\<close>: the list \<open>attachments\<close> the source appends to
  is passed in and returned; an exception ends the walk. \<open>extract_rows\<close> is its inner
  loop over the rows of a \<open>fieldList\<close>.
\<close>

function (sequential) extract_attachments_recursive ::
    "loads \<Rightarrow> json list \<Rightarrow> AttachmentInfo list \<Rightarrow> error + AttachmentInfo list"
  and extract_rows ::
    "loads \<Rightarrow> json list \<Rightarrow> AttachmentInfo list \<Rightarrow> error + AttachmentInfo list"
where
  "extract_attachments_recursive loads [] attachments = Inr attachments"
| "extract_attachments_recursive loads (control # controls) attachments =
     (case (case control of
              JDict kvs \<Rightarrow>
                (let control_type = dict_get_default kvs ''type'' (JStr []) in
                 if control_type = JStr (ascii ''fieldList'') then
                   (case dict_get_default kvs ''value'' (JList []) of
                      JList rows \<Rightarrow> extract_rows loads rows attachments
                    | _ \<Rightarrow> Inr attachments)
                 else if control_type \<noteq> JStr (ascii ''attachment'')
                       \<and> control_type \<noteq> JStr (ascii ''attachmentV2'') then Inr attachments
                 else (case attachment_descriptors loads kvs of
                         Inl e \<Rightarrow> Inl e
                       | Inr found \<Rightarrow> Inr (attachments @ found)))
            | _ \<Rightarrow> Inr attachments) of
        Inl e \<Rightarrow> Inl e
      | Inr attachments' \<Rightarrow> extract_attachments_recursive loads controls attachments')"
| "extract_rows loads [] attachments = Inr attachments"
| "extract_rows loads (row # rows) attachments =
     (case (case row of
              JList controls \<Rightarrow> extract_attachments_recursive loads controls attachments
            | _ \<Rightarrow> Inr attachments) of
        Inl e \<Rightarrow> Inl e
      | Inr attachments' \<Rightarrow> extract_rows loads rows attachments')"
  by pat_completeness auto

termination
proof -
  have sz: "size v < Suc (size_list (size_prod (\<lambda>_. 0) size) kvs)"
    if "map_of kvs k = Some v" for kvs :: "(pystr \<times> json) list" and k v
    using that by (induction kvs) (auto split: if_splits)
  show ?thesis
    by (relation "measure (\<lambda>x. case x of Inl (_, cs, _) \<Rightarrow> size_list size cs
                                        | Inr (_, rs, _) \<Rightarrow> size_list size rs)")
       (auto simp: dict_get_default_def split: option.splits dest: sz)
qed

text \<open>
  \<open>extract_attachments_from_form\<close>: only \<open>JSONDecodeError\<close> is caught; the loop
  over a parsed form that is not iterable raises.
\<close>

definition extract_attachments_from_form :: "loads \<Rightarrow> json \<Rightarrow> error + AttachmentInfo list" where
  "extract_attachments_from_form loads form_json =
     (case json_loads loads form_json of
        Inl JSONDecodeError \<Rightarrow> Inr []
      | Inl e \<Rightarrow> Inl e
      | Inr form_data \<Rightarrow>
          (case py_iter form_data of
             Inl e \<Rightarrow> Inl e
           | Inr controls \<Rightarrow> extract_attachments_recursive loads controls []))"

section \<open>Field extraction (handlers/approval.py, \<open>_process_approval\<close> step 3)\<close>

text \<open>
  An f-string field \<open>{v}\<close> prints \<open>str(v)\<close>. For text, \<open>None\<close>, booleans and
  integers that is written out; what Python prints for a float, a list or a dict is the
  parameter \<open>repr\<close>.
\<close>

type_synonym repr = "json \<Rightarrow> pystr"

definition str_int :: "int \<Rightarrow> pystr" where
  "str_int i = (if i < 0 then 45 # str_nat (nat (- i)) else str_nat (nat i))"

definition py_str :: "repr \<Rightarrow> json \<Rightarrow> pystr" where
  "py_str repr v = (case v of
      JStr s \<Rightarrow> s
    | JNull \<Rightarrow> ascii ''None''
    | JBool b \<Rightarrow> (if b then ascii ''True'' else ascii ''False'')
    | JInt i \<Rightarrow> str_int i
    | _ \<Rightarrow> repr v)"

text \<open>\<open>sep.join(parts)\<close>.\<close>

fun join :: "pystr \<Rightarrow> pystr list \<Rightarrow> pystr" where
  "join sep [] = []"
| "join sep [p] = p"
| "join sep (p # q # ps) = p @ sep @ join sep (q # ps)"

text \<open>The two labels the loop compares names with, as code points.\<close>

definition title_label :: pystr where
  "title_label = [21517, 31216]"

definition amount_label :: pystr where
  "amount_label = [37329, 39069]"

text \<open>
  The list comprehension of line 132: one \<open>"value currency"\<close> text per entry of the
  parsed \<open>sumItems\<close>; an entry that is no dict has no \<open>get\<close>.
\<close>

fun sum_parts :: "repr \<Rightarrow> json list \<Rightarrow> error + pystr list" where
  "sum_parts repr [] = Inr []"
| "sum_parts repr (s # ss) =
     (case s of
        JDict kvs \<Rightarrow>
          (case sum_parts repr ss of
             Inl e \<Rightarrow> Inl e
           | Inr parts \<Rightarrow>
               Inr ((py_str repr (dict_get_default kvs ''value'' (JStr [])) @ ascii '' ''
                     @ py_str repr (dict_get_default kvs ''currency'' (JStr []))) # parts))
      | _ \<Rightarrow> Inl AttributeError)"

text \<open>
  The loop \<open>for item in ext\<close> of a \<open>fieldList\<close> control (lines 126 to 136). It
  stops at the first item of type \<open>amount\<close>, whether or not that item sets the amount;
  only \<open>JSONDecodeError\<close> is caught.
\<close>

fun summary_amount :: "loads \<Rightarrow> repr \<Rightarrow> json list \<Rightarrow> json \<Rightarrow> error + json" where
  "summary_amount loads repr [] approval_amount = Inr approval_amount"
| "summary_amount loads repr (item # items) approval_amount =
     (case item of
        JDict kvs \<Rightarrow>
          (if dict_get kvs ''type'' = JStr (ascii ''amount'') then
             (let sum_items = dict_get_default kvs ''sumItems'' (JStr []) in
              if truthy sum_items then
                (case json_loads loads sum_items of
                   Inl JSONDecodeError \<Rightarrow> Inr (dict_get_default kvs ''value'' (JStr []))
                 | Inl e \<Rightarrow> Inl e
                 | Inr sums \<Rightarrow>
                     (case py_iter sums of
                        Inl e \<Rightarrow> Inl e
                      | Inr ss \<Rightarrow>
                          (case sum_parts repr ss of
                             Inl e \<Rightarrow> Inl e
                           | Inr parts \<Rightarrow> Inr (JStr (join (ascii '', '') parts)))))
              else Inr approval_amount)
           else summary_amount loads repr items approval_amount)
      | _ \<Rightarrow> Inl AttributeError)"

text \<open>
  One pass of the loop \<open>for field in form_data\<close> (lines 110 to 136) on the pair
  \<open>(approval_title, approval_amount)\<close>.
\<close>

definition field_step :: "loads \<Rightarrow> repr \<Rightarrow> json \<times> json \<Rightarrow> json \<Rightarrow> error + json \<times> json" where
  "field_step loads repr st field =
     (case field of
        JDict kvs \<Rightarrow>
          (if dict_get kvs ''name'' = JStr title_label
              \<and> dict_get kvs ''type'' = JStr (ascii ''input'') then
             Inr (dict_get_default kvs ''value'' (JStr []), snd st)
           else if dict_get kvs ''name'' = JStr amount_label
              \<and> dict_get kvs ''type'' = JStr (ascii ''amount'') then
             (let amount_value = dict_get_default kvs ''value'' (JStr []);
                  currency =
                    (case dict_get_default kvs ''ext'' (JDict []) of
                       JDict ext \<Rightarrow> dict_get_default ext ''currency'' (JStr (ascii ''SEK''))
                     | _ \<Rightarrow> JStr (ascii ''SEK''))
              in Inr (fst st, JStr (py_str repr amount_value @ ascii '' '' @ py_str repr currency)))
           else if dict_get kvs ''type'' = JStr (ascii ''fieldList'') \<and> \<not> truthy (snd st) then
             (case dict_get_default kvs ''ext'' (JList []) of
                JList items \<Rightarrow>
                  (case summary_amount loads repr items (snd st) of
                     Inl e \<Rightarrow> Inl e
                   | Inr a \<Rightarrow> Inr (fst st, a))
              | _ \<Rightarrow> Inr st)
           else Inr st)
      | _ \<Rightarrow> Inl AttributeError)"

fun aggregate_fields :: "loads \<Rightarrow> repr \<Rightarrow> json list \<Rightarrow> json \<times> json \<Rightarrow> error + json \<times> json" where
  "aggregate_fields loads repr [] st = Inr st"
| "aggregate_fields loads repr (field # form_data) st =
     (case field_step loads repr st field of
        Inl e \<Rightarrow> Inl e
      | Inr st' \<Rightarrow> aggregate_fields loads repr form_data st')"

text \<open>Lines 106 to 136: title and amount of a parsed form, both starting empty.\<close>

definition extract_summary :: "loads \<Rightarrow> repr \<Rightarrow> json \<Rightarrow> error + json \<times> json" where
  "extract_summary loads repr form_data =
     (case py_iter form_data of
        Inl e \<Rightarrow> Inl e
      | Inr controls \<Rightarrow> aggregate_fields loads repr controls (JStr [], JStr []))"

section \<open>Downloading (services/attachment.py, \<open>download_attachments\<close>)\<close>

text \<open>
  The remote API, as the answers it gives: the approval record for an instance code, the
  temporary URLs for a batch of file tokens (\<open>Inl\<close> where the call raises), and the
  bytes of the \<open>n\<close>-th download attempt of a run (\<open>None\<close> where it raises; the same
  URL may fail once and succeed later).
\<close>

record FeishuClient =
  get_approval_instance :: "json \<Rightarrow> error + json"
  get_file_download_urls :: "json list \<Rightarrow> error + (json \<rightharpoonup> json)"
  download_file :: "nat \<Rightarrow> json \<Rightarrow> byte list option"

text \<open>A list or a dict cannot be a dictionary key: \<open>d.get(k)\<close> raises \<open>TypeError\<close>.\<close>

definition hashable :: "json \<Rightarrow> bool" where
  "hashable v = (case v of JList _ \<Rightarrow> False | JDict _ \<Rightarrow> False | _ \<Rightarrow> True)"

text \<open>Line 182: \<open>attachment.download_url or token_to_url.get(attachment.file_token)\<close>.\<close>

definition resolve_url :: "(json \<rightharpoonup> json) \<Rightarrow> AttachmentInfo \<Rightarrow> error + json" where
  "resolve_url token_to_url attachment =
     (if truthy (download_url attachment) then Inr (download_url attachment)
      else if hashable (file_token attachment) then
        Inr (case token_to_url (file_token attachment) of Some u \<Rightarrow> u | None \<Rightarrow> JNull)
      else Inl TypeError)"

text \<open>
  The loop of lines 180 to 191; \<open>n\<close> counts the download attempts made so far and
  \<open>downloaded\<close> is the list built up. A failed attempt is caught and the loop goes on.
\<close>

fun download_loop ::
  "FeishuClient \<Rightarrow> (json \<rightharpoonup> json) \<Rightarrow> nat \<Rightarrow> AttachmentInfo list \<Rightarrow> AttachmentInfo list
     \<Rightarrow> error + AttachmentInfo list" where
  "download_loop client token_to_url n [] downloaded = Inr downloaded"
| "download_loop client token_to_url n (attachment # rest) downloaded =
     (case resolve_url token_to_url attachment of
        Inl e \<Rightarrow> Inl e
      | Inr url \<Rightarrow>
          (if \<not> truthy url then download_loop client token_to_url n rest downloaded
           else (case download_file client n url of
               Some bytes \<Rightarrow>
                 download_loop client token_to_url (Suc n) rest
                   (downloaded @ [attachment\<lparr>content := Some bytes\<rparr>])
             | None \<Rightarrow> download_loop client token_to_url (Suc n) rest downloaded)))"

text \<open>
  Lines 173 to 177: the URLs of the attachments that have a file token and no URL of their
  own; the remote call is made only when there is such an attachment.
\<close>

definition token_to_url_of :: "FeishuClient \<Rightarrow> AttachmentInfo list \<Rightarrow> error + (json \<rightharpoonup> json)" where
  "token_to_url_of client attachments =
     (let file_tokens =
            map file_token
              (filter (\<lambda>a. truthy (file_token a) \<and> \<not> truthy (download_url a)) attachments)
      in if file_tokens \<noteq> [] then get_file_download_urls client file_tokens
         else Inr Map.empty)"

definition download_attachments :: "FeishuClient \<Rightarrow> AttachmentInfo list \<Rightarrow> error + AttachmentInfo list" where
  "download_attachments client attachments =
     (if attachments = [] then Inr []
      else (case token_to_url_of client attachments of
              Inl e \<Rightarrow> Inl e
            | Inr token_to_url \<Rightarrow> download_loop client token_to_url 0 attachments []))"

section \<open>Processing an approved instance (handlers/approval.py)\<close>

text \<open>What \<open>send_with_attachments\<close> is called with.\<close>

record Email =
  to_email :: pystr
  subject :: pystr
  body :: pystr
  sent_attachments :: "AttachmentInfo list"

text \<open>
  How the handling of an event ends when nothing raises: with one of the early returns,
  or after the mail-delivery call has returned.
\<close>

datatype skip =
    NonInstanceEvent
  | StatusNotApproved
  | NoInstanceCode
  | NotInMapping
  | NoAttachments
  | NoneDownloaded

datatype outcome = Skipped skip | Sent Email

text \<open>
  \<open>_get_target_email\<close> on whatever \<open>instance.get("approval_name", "")\<close> holds: a
  value that is no text is not a key of \<open>APPROVAL_EMAIL_ATTRS\<close>, and one that cannot
  be hashed raises.
\<close>

definition target_email_of :: "Settings \<Rightarrow> json \<Rightarrow> error + pystr option" where
  "target_email_of settings approval_name =
     (case approval_name of
        JStr n \<Rightarrow> Inr (get_target_email settings n)
      | _ \<Rightarrow> (if hashable approval_name then Inr None else Inl TypeError))"

definition mail_subject :: "repr \<Rightarrow> json \<Rightarrow> json \<Rightarrow> pystr" where
  "mail_subject repr approval_name approval_title =
     ascii ''['' @ py_str repr approval_name @ ascii '']-'' @ py_str repr approval_title"

definition mail_body :: "repr \<Rightarrow> json \<Rightarrow> json \<Rightarrow> json \<Rightarrow> nat \<Rightarrow> pystr" where
  "mail_body repr approval_name approval_title approval_amount n =
     [23457, 25209, 24050, 36890, 36807, 10, 10]
     @ [23457, 25209, 31867, 22411, 58, 32] @ py_str repr approval_name @ [10]
     @ [23457, 25209, 26631, 39064, 58, 32] @ py_str repr approval_title @ [10]
     @ [23457, 25209, 37329, 39069, 58, 32] @ py_str repr approval_amount @ [10]
     @ [38468, 20214, 25968, 37327, 58, 32] @ str_nat n @ [10]"

text \<open>
  \<open>_process_approval\<close>. \<open>send\<close> is the mail-delivery collaborator: \<open>Some e\<close> where
  the call raises. The debug print of line 94 parses the form before anything else, so an
  unparsable form raises there.
\<close>

definition process_approval ::
  "FeishuClient \<Rightarrow> Settings \<Rightarrow> (Email \<Rightarrow> error option) \<Rightarrow> loads \<Rightarrow> repr \<Rightarrow> json
     \<Rightarrow> error + outcome" where
  "process_approval client settings send loads repr instance_code =
     (case get_approval_instance client instance_code of
        Inl e \<Rightarrow> Inl e
      | Inr (JDict instance) \<Rightarrow>
          (let approval_name = dict_get_default instance ''approval_name'' (JStr []);
               form_json = dict_get_default instance ''form'' (JStr (ascii ''[]''))
           in case json_loads loads form_json of
                Inl e \<Rightarrow> Inl e
              | Inr form_data \<Rightarrow>
           (case target_email_of settings approval_name of
                Inl e \<Rightarrow> Inl e
              | Inr None \<Rightarrow> Inr (Skipped NotInMapping)
              | Inr (Some target_email) \<Rightarrow>
           (case extract_summary loads repr form_data of
                Inl e \<Rightarrow> Inl e
              | Inr (title, approval_amount) \<Rightarrow>
           (let approval_title =
                  (if truthy title then title
                   else dict_get_default instance ''serial_number'' instance_code)
            in case extract_attachments_from_form loads form_json of
                Inl e \<Rightarrow> Inl e
              | Inr attachments \<Rightarrow>
           (if attachments = [] then Inr (Skipped NoAttachments)
            else case download_attachments client attachments of
                Inl e \<Rightarrow> Inl e
              | Inr downloaded \<Rightarrow>
           (if downloaded = [] then Inr (Skipped NoneDownloaded)
            else (let mail = \<lparr>to_email = target_email,
                               subject = mail_subject repr approval_name approval_title,
                               body = mail_body repr approval_name approval_title approval_amount
                                        (length downloaded),
                               sent_attachments = downloaded\<rparr>
                  in case send mail of Some e \<Rightarrow> Inl e | None \<Rightarrow> Inr (Sent mail))))))))
      | Inr _ \<Rightarrow> Inl AttributeError)"

section \<open>The event gate (handlers/approval.py, \<open>handle_event\<close>)\<close>




text \<open>
  \<open>event_data.get(k1) or event_data.get(k2) or event_data.get("object", {}).get(k3)\<close>:
  the third operand is evaluated, and can raise, only when the first two are falsy.
\<close>

definition first_of :: "json \<Rightarrow> string \<Rightarrow> string \<Rightarrow> string \<Rightarrow> error + json" where
  "first_of event_data k1 k2 k3 =
     (case event_data of
        JDict ed \<Rightarrow>
          (if truthy (dict_get ed k1) then Inr (dict_get ed k1)
           else if truthy (dict_get ed k2) then Inr (dict_get ed k2)
           else (case dict_get_default ed ''object'' (JDict []) of
                   JDict ob \<Rightarrow> Inr (dict_get ob k3)
                 | _ \<Rightarrow> Inl AttributeError))
      | _ \<Rightarrow> Inl AttributeError)"

definition event_status :: "json \<Rightarrow> error + json" where
  "event_status event =
     (case py_get event ''event'' (JDict []) of
        Inl e \<Rightarrow> Inl e
      | Inr event_data \<Rightarrow> first_of event_data ''status'' ''instance_status'' ''status'')"

definition event_instance_code :: "json \<Rightarrow> error + json" where
  "event_instance_code event =
     (case py_get event ''event'' (JDict []) of
        Inl e \<Rightarrow> Inl e
      | Inr event_data \<Rightarrow> first_of event_data ''instance_code'' ''approval_code'' ''instance_code'')"




section \<open>Concrete forms\<close>

text \<open>
  To run the model on a concrete form, the parses \<open>json.loads\<close> returns for the texts
  involved are listed in a table; a text that is not listed counts as one it rejects
  with \<open>JSONDecodeError\<close>.
\<close>

definition loads_table :: "(string \<times> json) list \<Rightarrow> loads" where
  "loads_table table s =
     (case map_of (map (\<lambda>(k, v). (ascii k, v)) table) s of
        Some v \<Rightarrow> Inr v
      | None \<Rightarrow> Inl JSONDecodeError)"

text \<open>
  Two texts that are not JSON and that \<open>json.loads\<close> does not reject with
  \<open>JSONDecodeError\<close>: an opening bracket followed by 5000 digits \<open>1\<close>, on which it
  raises \<open>ValueError\<close> (the integer is beyond the digit limit), and 100000 opening
  brackets, on which it raises \<open>RecursionError\<close>. \<open>limited_loads\<close> is what
  \<open>json.loads\<close> does on these two texts and on texts it rejects as JSON; it is given
  no other text.
\<close>

definition long_integer_text :: pystr where
  "long_integer_text = 91 # replicate 5000 49"

definition deep_nesting_text :: pystr where
  "deep_nesting_text = replicate 100000 91"

definition limited_loads :: loads where
  "limited_loads s =
     (if s = long_integer_text then Inl ValueError
      else if s = deep_nesting_text then Inl RecursionError
      else Inl JSONDecodeError)"

text \<open>A printer for values no example prints.\<close>

definition no_repr :: repr where
  "no_repr v = []"

definition named_only_control :: json where
  "named_only_control =
     JDict [(ascii ''type'', JStr (ascii ''attachment'')),
            (ascii ''value'', JList [JDict [(ascii ''name'', JStr (ascii ''a.pdf''))]])]"

definition named_only_descriptor :: AttachmentInfo where
  "named_only_descriptor =
     \<lparr>file_token = JStr [], name = JStr (ascii ''a.pdf''), mime_type = JStr [],
      content = None, download_url = JStr []\<rparr>"

definition two_file_control :: json where
  "two_file_control =
     JDict [(ascii ''type'', JStr (ascii ''attachmentV2'')),
            (ascii ''value'', JList [JStr (ascii ''http://a/1''), JStr (ascii ''http://a/2'')])]"

definition nested_title_control :: json where
  "nested_title_control =
     JDict [(ascii ''name'', JStr title_label), (ascii ''type'', JStr (ascii ''input'')),
            (ascii ''value'', JStr (ascii ''Taxi''))]"

definition expense_rows :: json where
  "expense_rows = JList [JList [nested_title_control, two_file_control], JList [named_only_control]]"

definition expense_list :: "(pystr \<times> json) list" where
  "expense_list = [(ascii ''type'', JStr (ascii ''fieldList''))]"

definition nested_document :: "json list" where
  "nested_document = [JDict ((ascii ''value'', expense_rows) # expense_list), two_file_control]"

definition url_control :: "json \<Rightarrow> (pystr \<times> json) list" where
  "url_control v = [(ascii ''name'', JStr (ascii ''Receipt'')),
                    (ascii ''type'', JStr (ascii ''attachmentV2'')),
                    (ascii ''value'', v)]"

definition settings0 :: Settings where
  "settings0 = \<lparr>email_feiyongbaoxiao_test = [], email_fukuan_test = ascii ''a@b.se'',
                 email_feiyongbaoxiao = [], email_fukuan_ruidian_duigong_shic = []\<rparr>"

section \<open>The controls a walk should reach\<close>

text \<open>
  The specification counts the controls of an attachment type "at all nesting depths":
  the attachment controls of a document in document order, those in the rows of a
  \<open>fieldList\<close> in place of the \<open>fieldList\<close>.
\<close>

definition is_attachment_type :: "json \<Rightarrow> bool" where
  "is_attachment_type t = (t = JStr (ascii ''attachment'') \<or> t = JStr (ascii ''attachmentV2''))"

function (sequential) attachment_controls :: "json list \<Rightarrow> (pystr \<times> json) list list"
  and attachment_controls_rows :: "json list \<Rightarrow> (pystr \<times> json) list list"
where
  "attachment_controls [] = []"
| "attachment_controls (JDict kvs # controls) =
     (if dict_get_default kvs ''type'' (JStr []) = JStr (ascii ''fieldList'') then
        (case dict_get_default kvs ''value'' (JList []) of
           JList rows \<Rightarrow> attachment_controls_rows rows
         | _ \<Rightarrow> [])
      else if is_attachment_type (dict_get_default kvs ''type'' (JStr [])) then [kvs]
      else [])
     @ attachment_controls controls"
| "attachment_controls (_ # controls) = attachment_controls controls"
| "attachment_controls_rows [] = []"
| "attachment_controls_rows (JList row # rows) = attachment_controls row @ attachment_controls_rows rows"
| "attachment_controls_rows (_ # rows) = attachment_controls_rows rows"
  by pat_completeness auto

termination
proof -
  have sz: "size v < Suc (size_list (size_prod (\<lambda>_. 0) size) kvs)"
    if "map_of kvs k = Some v" for kvs :: "(pystr \<times> json) list" and k v
    using that by (induction kvs) (auto split: if_splits)
  show ?thesis
    by (relation "measure (\<lambda>x. case x of Inl cs \<Rightarrow> size_list size cs | Inr rs \<Rightarrow> size_list size rs)")
       (auto simp: dict_get_default_def split: option.splits dest: sz)
qed

text \<open>
  The resolver applied to a list of controls in order: the descriptors of each,
  concatenated, or the first exception.
\<close>

fun resolve_all :: "loads \<Rightarrow> (pystr \<times> json) list list \<Rightarrow> error + AttachmentInfo list" where
  "resolve_all loads [] = Inr []"
| "resolve_all loads (control # controls) =
     (case attachment_descriptors loads control of
        Inl e \<Rightarrow> Inl e
      | Inr found \<Rightarrow>
          (case resolve_all loads controls of
             Inl e \<Rightarrow> Inl e
           | Inr rest \<Rightarrow> Inr (found @ rest)))"

section \<open>Properties of the walker and the resolver\<close>

lemma resolve_all_append:
  "resolve_all loads (xs @ ys) =
     (case resolve_all loads xs of
        Inl e \<Rightarrow> Inl e
      | Inr a \<Rightarrow> (case resolve_all loads ys of Inl e \<Rightarrow> Inl e | Inr b \<Rightarrow> Inr (a @ b)))"
  by (induction xs) (auto split: sum.splits)

lemma walker_flatten:
  "extract_attachments_recursive loads controls acc
     = (case resolve_all loads (attachment_controls controls) of
          Inl e \<Rightarrow> Inl e
        | Inr found \<Rightarrow> Inr (acc @ found))"
  "extract_rows loads rows acc
     = (case resolve_all loads (attachment_controls_rows rows) of
          Inl e \<Rightarrow> Inl e
        | Inr found \<Rightarrow> Inr (acc @ found))"
proof (induction loads controls acc and loads rows acc rule: extract_attachments_recursive_extract_rows.induct)
  case (1 loads attachments)
  show ?case by simp
next
  case (2 loads control controls attachments)
  show ?case
  proof (cases control)
    case (JDict kvs)
    show ?thesis
    proof (cases "dict_get_default kvs ''type'' (JStr []) = JStr (ascii ''fieldList'')")
      case True
      show ?thesis
      proof (cases "dict_get_default kvs ''value'' (JList [])")
        case (JList rows)
        with 2 JDict True show ?thesis
          by (auto simp: resolve_all_append split: sum.splits)
      qed (use 2 JDict True in \<open>auto split: sum.splits\<close>)
    next
      case False
      with 2 JDict show ?thesis
        by (auto simp: is_attachment_type_def split: sum.splits)
    qed
  qed (use 2 in \<open>auto split: sum.splits\<close>)
next
  case (3 loads attachments)
  show ?case by simp
next
  case (4 loads row rows attachments)
  show ?case
    by (cases row) (use 4 in \<open>auto simp: resolve_all_append split: sum.splits\<close>)
qed

lemma resolve_all_per_control:
  "(resolve_all loads controls = Inr found) =
     (\<exists>per_control. map (attachment_descriptors loads) controls = map Inr per_control
        \<and> found = concat per_control)"
proof (induction controls arbitrary: found)
  case Nil
  show ?case by auto
next
  case (Cons c controls)
  show ?case
  proof
    assume "resolve_all loads (c # controls) = Inr found"
    then obtain a b where a: "attachment_descriptors loads c = Inr a"
      and b: "resolve_all loads controls = Inr b" and f: "found = a @ b"
      by (auto split: sum.splits)
    from b Cons.IH [of b] obtain rest where
      "map (attachment_descriptors loads) controls = map Inr rest" "b = concat rest"
      by blast
    with a f have "map (attachment_descriptors loads) (c # controls) = map Inr (a # rest)
        \<and> found = concat (a # rest)"
      by simp
    then show "\<exists>per_control. map (attachment_descriptors loads) (c # controls) = map Inr per_control
        \<and> found = concat per_control"
      by blast
  next
    assume "\<exists>per_control. map (attachment_descriptors loads) (c # controls) = map Inr per_control
        \<and> found = concat per_control"
    then obtain per_control where
      m: "map (attachment_descriptors loads) (c # controls) = map Inr per_control"
      and f: "found = concat per_control"
      by blast
    from m obtain a rest where p: "per_control = a # rest"
      and a: "attachment_descriptors loads c = Inr a"
      and r: "map (attachment_descriptors loads) controls = map Inr rest"
      by (cases per_control) auto
    from r Cons.IH [of "concat rest"] have "resolve_all loads controls = Inr (concat rest)"
      by blast
    with a p f show "resolve_all loads (c # controls) = Inr found" by simp
  qed
qed

definition well_formed_descriptor :: "AttachmentInfo \<Rightarrow> bool" where
  "well_formed_descriptor d =
     (content d = None
      \<and> (truthy (file_token d) \<or> file_token d = JStr [])
      \<and> (truthy (download_url d) \<or> download_url d = JStr []))"

lemma file_descriptor_wf:
  "d \<in> set (file_descriptor filenames i file_info) \<Longrightarrow> well_formed_descriptor d"
  by (cases file_info)
     (auto simp: file_descriptor_def well_formed_descriptor_def py_or_def startswith_def ascii_def
           split: if_splits)

lemma files_descriptors_wf:
  "d \<in> set (files_descriptors filenames v) \<Longrightarrow> well_formed_descriptor d"
  by (auto simp: files_descriptors_def Let_def dest: file_descriptor_wf)

lemma attachment_descriptors_wf:
  assumes "attachment_descriptors loads control = Inr found" and "d \<in> set found"
  shows "well_formed_descriptor d"
proof -
  let ?fd = "files_descriptors (ext_filenames (dict_get control ''ext''))"
  consider (bare) s where "dict_get control ''value'' = JStr s"
      "d  = \<lparr>file_token = JStr [], name = JStr (ascii ''attachment''),
                      mime_type = JStr [], content = None, download_url = JStr s\<rparr>"
      "startswith s ''http''"
    | (files) v where "d \<in> set (?fd v)"
    using assms
    by (cases "dict_get control ''value''")
       (auto simp: attachment_descriptors_def Let_def split: if_splits sum.splits error.splits)
  then show ?thesis
  proof cases
    case bare
    then show ?thesis
      by (auto simp: well_formed_descriptor_def startswith_def ascii_def)
  next
    case files
    then show ?thesis by (rule files_descriptors_wf)
  qed
qed

lemma named_only_eval:
  "extract_attachments_recursive loads [named_only_control] [] = Inr [named_only_descriptor]"
  unfolding named_only_control_def named_only_descriptor_def
  by (simp add: attachment_descriptors_def
      files_descriptors_def ext_filenames_def file_descriptor_def dict_get_def dict_get_default_def
      py_or_def ascii_def enumerate_eq_zip)

lemma two_file_eval:
  "extract_attachments_recursive loads [two_file_control] [] =
     Inr [\<lparr>file_token = JStr [], name = JStr (ascii ''attachment_1''), mime_type = JStr [],
           content = None, download_url = JStr (ascii ''http://a/1'')\<rparr>,
          \<lparr>file_token = JStr [], name = JStr (ascii ''attachment_2''), mime_type = JStr [],
           content = None, download_url = JStr (ascii ''http://a/2'')\<rparr>]"
  unfolding two_file_control_def
  by (simp add: attachment_descriptors_def files_descriptors_def ext_filenames_def
      file_descriptor_def dict_get_def dict_get_default_def fallback_name_def str_nat.simps
      startswith_def ascii_def enumerate_eq_zip)

lemma two_file_controls:
  "attachment_controls [two_file_control]
     = [[(ascii ''type'', JStr (ascii ''attachmentV2'')),
         (ascii ''value'', JList [JStr (ascii ''http://a/1''), JStr (ascii ''http://a/2'')])]]"
  unfolding two_file_control_def
  by (simp add: dict_get_default_def is_attachment_type_def ascii_def)

text \<open>
  What the resolver does before it looks at the entries: a falsy value gives nothing, and
  a list of \<open>n\<close> entries gives at most \<open>n\<close> descriptors.
\<close>

lemma attachment_descriptors_empty_value:
  "\<not> truthy (dict_get control ''value'') \<Longrightarrow> attachment_descriptors loads control = Inr []"
  by (simp add: attachment_descriptors_def)

lemma length_files_descriptors:
  "length (files_descriptors filenames (JList files)) \<le> length files"
proof -
  have one: "length (file_descriptor filenames i file_info) \<le> 1" for i file_info
    by (cases file_info) (simp_all add: file_descriptor_def)
  have "length (concat (map (\<lambda>(i, file_info). file_descriptor filenames i file_info) xs)) \<le> length xs"
    for xs :: "(nat \<times> json) list"
  proof (induction xs)
    case Nil
    show ?case by simp
  next
    case (Cons x xs)
    obtain i file_info where x: "x = (i, file_info)" by (cases x)
    from one [of i file_info] Cons x show ?case by simp
  qed
  from this [of "enumerate 0 files"] show ?thesis
    by (simp add: files_descriptors_def)
qed

lemma attachment_descriptors_list_value:
  assumes "dict_get control ''value'' = JList files"
  shows "\<exists>found. attachment_descriptors loads control = Inr found \<and> length found \<le> length files"
proof (cases "files = []")
  case True
  with assms show ?thesis by (simp add: attachment_descriptors_def)
next
  case False
  with assms have "attachment_descriptors loads control
      = Inr (files_descriptors (ext_filenames (dict_get control ''ext'')) (JList files))"
    by (simp add: attachment_descriptors_def)
  with length_files_descriptors show ?thesis by simp
qed

lemma field_step_ignores_rows:
  "dict_get kvs ''type'' = JStr (ascii ''fieldList'') \<Longrightarrow>
     field_step loads repr st (JDict ((ascii ''value'', rows) # kvs))
       = field_step loads repr st (JDict ((ascii ''value'', rows') # kvs))"
  by (simp add: field_step_def dict_get_def dict_get_default_def ascii_def)

text \<open>
  C2, as the code has it. For every list of controls, the walker does what the resolver
  does on the attachment controls at every nesting depth (those inside the rows of a
  \<open>fieldList\<close> included), taken in document order: it raises the first exception a
  resolver call raises, and otherwise the descriptors it emits are the resolver's
  descriptors for each such control, concatenated in document order; their number is the
  sum of the numbers each such control resolves to, not the number of controls. Fields
  are not collected by the walk: the step of the field loop on a \<open>fieldList\<close> control
  does not depend on the control's rows.
\<close>

theorem walker_recursive_completeness:
  "extract_attachments_recursive loads controls []
     = resolve_all loads (attachment_controls controls)
   \<and> (map (attachment_descriptors loads) (attachment_controls controls) = map Inr per_control
        \<longrightarrow> extract_attachments_recursive loads controls [] = Inr (concat per_control)
          \<and> length (concat per_control) = sum_list (map length per_control))
   \<and> (extract_attachments_recursive loads controls [] = Inr found
        \<longrightarrow> (\<exists>each. map (attachment_descriptors loads) (attachment_controls controls) = map Inr each
               \<and> found = concat each \<and> length found = sum_list (map length each)))
   \<and> (dict_get kvs ''type'' = JStr (ascii ''fieldList'') \<longrightarrow>
        field_step loads repr st (JDict ((ascii ''value'', rows) # kvs))
          = field_step loads repr st (JDict ((ascii ''value'', rows') # kvs)))"
proof (intro conjI impI)
  show eq: "extract_attachments_recursive loads controls []
     = resolve_all loads (attachment_controls controls)"
    by (simp add: walker_flatten(1) split: sum.splits)
  {
    assume "map (attachment_descriptors loads) (attachment_controls controls) = map Inr per_control"
    then have "resolve_all loads (attachment_controls controls) = Inr (concat per_control)"
      using resolve_all_per_control [of loads "attachment_controls controls" "concat per_control"]
      by blast
    then show "extract_attachments_recursive loads controls [] = Inr (concat per_control)"
      unfolding eq .
    show "length (concat per_control) = sum_list (map length per_control)"
      by (simp add: length_concat)
  }
  {
    assume "extract_attachments_recursive loads controls [] = Inr found"
    then have "resolve_all loads (attachment_controls controls) = Inr found"
      unfolding eq .
    then obtain each where
      "map (attachment_descriptors loads) (attachment_controls controls) = map Inr each"
      "found = concat each"
      using resolve_all_per_control [of loads "attachment_controls controls" found] by blast
    then show "\<exists>each. map (attachment_descriptors loads) (attachment_controls controls) = map Inr each
               \<and> found = concat each \<and> length found = sum_list (map length each)"
      by (auto simp: length_concat)
  }
  {
    assume "dict_get kvs ''type'' = JStr (ascii ''fieldList'')"
    then show "field_step loads repr st (JDict ((ascii ''value'', rows) # kvs))
          = field_step loads repr st (JDict ((ascii ''value'', rows') # kvs))"
      by (rule field_step_ignores_rows)
  }
qed

theorem walker_recursive_completeness_witness:
  "map_sum id (map download_url) (extract_attachments_recursive (loads_table []) nested_document [])
     = Inr [JStr (ascii ''http://a/1''), JStr (ascii ''http://a/2''), JStr [],
            JStr (ascii ''http://a/1''), JStr (ascii ''http://a/2'')]
   \<and> length (attachment_controls nested_document) = 3
   \<and> field_step (loads_table []) no_repr (JStr [], JStr []) (JDict ((ascii ''value'', expense_rows) # expense_list))
      = field_step (loads_table []) no_repr (JStr [], JStr []) (JDict ((ascii ''value'', JList []) # expense_list))"
proof -
  let ?one = "\<lambda>n u. \<lparr>file_token = JStr [], name = JStr (ascii n), mime_type = JStr [],
                        content = None, download_url = JStr (ascii u)\<rparr>"
  let ?two = "[?one ''attachment_1'' ''http://a/1'', ?one ''attachment_2'' ''http://a/2'']"
  have t: "dict_get expense_list ''type'' = JStr (ascii ''fieldList'')"
    by (simp add: expense_list_def dict_get_def)
  have c: "attachment_controls nested_document =
     [[(ascii ''type'', JStr (ascii ''attachmentV2'')),
         (ascii ''value'', JList [JStr (ascii ''http://a/1''), JStr (ascii ''http://a/2'')])],
      [(ascii ''type'', JStr (ascii ''attachment'')),
            (ascii ''value'', JList [JDict [(ascii ''name'', JStr (ascii ''a.pdf''))]])],
      [(ascii ''type'', JStr (ascii ''attachmentV2'')),
         (ascii ''value'', JList [JStr (ascii ''http://a/1''), JStr (ascii ''http://a/2'')])]]"
    unfolding nested_document_def expense_rows_def expense_list_def two_file_control_def
      named_only_control_def nested_title_control_def
    by (simp add: dict_get_default_def is_attachment_type_def ascii_def title_label_def)
  have d: "map (attachment_descriptors (loads_table [])) (attachment_controls nested_document)
     = map Inr [?two, [named_only_descriptor], ?two]"
    unfolding c named_only_descriptor_def
    by (simp add: attachment_descriptors_def files_descriptors_def ext_filenames_def
      file_descriptor_def dict_get_def dict_get_default_def py_or_def fallback_name_def
      str_nat.simps startswith_def ascii_def enumerate_eq_zip)
  from walker_recursive_completeness [where loads = "loads_table []" and controls = nested_document
      and per_control = "[?two, [named_only_descriptor], ?two]" and kvs = expense_list
      and repr = no_repr and st = "(JStr [], JStr [])" and rows = expense_rows and rows' = "JList []"]
    t d
  have "extract_attachments_recursive (loads_table []) nested_document []
          = Inr (concat [?two, [named_only_descriptor], ?two])"
    and "field_step (loads_table []) no_repr (JStr [], JStr []) (JDict ((ascii ''value'', expense_rows) # expense_list))
      = field_step (loads_table []) no_repr (JStr [], JStr []) (JDict ((ascii ''value'', JList []) # expense_list))"
    by blast+
  with c show ?thesis by (simp add: named_only_descriptor_def)
qed

text \<open>
  C2 as stated fails: a control holding two files gives two descriptors, and a title
  field inside a row of a \<open>fieldList\<close> is not seen by the field loop.
\<close>

theorem walker_count_counterexample:
  "map_sum id length (extract_attachments_recursive (loads_table []) [two_file_control] []) = Inr 2
   \<and> length (attachment_controls [two_file_control]) = 1
   \<and> extract_summary (loads_table []) no_repr
        (JList [JDict ((ascii ''value'', JList [JList [nested_title_control]]) # expense_list)])
       = Inr (JStr [], JStr [])"
proof -
  have "extract_summary (loads_table []) no_repr
        (JList [JDict ((ascii ''value'', JList [JList [nested_title_control]]) # expense_list)])
       = Inr (JStr [], JStr [])"
    unfolding expense_list_def
    by (simp add: extract_summary_def py_iter_def field_step_def dict_get_def dict_get_default_def
        ascii_def)
  then show ?thesis
    unfolding two_file_eval two_file_controls by simp
qed

text \<open>
  C3, as the code has it. A control whose value is a text that \<open>json.loads\<close> rejects
  with \<open>JSONDecodeError\<close> (as it does every text that starts with \<open>http\<close>) and
  that starts with \<open>http\<close> resolves to one descriptor named \<open>attachment\<close>, with
  the text as download URL and an empty file token. The name \<open>attachment_1\<close> is what
  the same URL gets as the only entry of a list value, when the control has no \<open>ext\<close>.
\<close>

theorem bare_url_descriptor:
  "(loads s = Inl JSONDecodeError \<and> startswith s ''http'' \<and> dict_get control ''value'' = JStr s \<longrightarrow>
      attachment_descriptors loads control =
        Inr [\<lparr>file_token = JStr [], name = JStr (ascii ''attachment''), mime_type = JStr [],
              content = None, download_url = JStr s\<rparr>])
   \<and> (startswith s ''http'' \<and> dict_get control ''value'' = JList [JStr s]
        \<and> dict_get control ''ext'' = JNull \<longrightarrow>
      attachment_descriptors loads control =
        Inr [\<lparr>file_token = JStr [], name = JStr (ascii ''attachment_1''), mime_type = JStr [],
              content = None, download_url = JStr s\<rparr>])"
proof (intro conjI impI)
  assume a: "loads s = Inl JSONDecodeError \<and> startswith s ''http'' \<and> dict_get control ''value'' = JStr s"
  then have "s \<noteq> []" by (auto simp: startswith_def ascii_def)
  with a show "attachment_descriptors loads control =
        Inr [\<lparr>file_token = JStr [], name = JStr (ascii ''attachment''), mime_type = JStr [],
              content = None, download_url = JStr s\<rparr>]"
    by (simp add: attachment_descriptors_def)
next
  assume a: "startswith s ''http'' \<and> dict_get control ''value'' = JList [JStr s]
        \<and> dict_get control ''ext'' = JNull"
  have "fallback_name 0 = JStr (ascii ''attachment_1'')"
    by (simp add: fallback_name_def ascii_def str_nat.simps)
  with a show "attachment_descriptors loads control =
        Inr [\<lparr>file_token = JStr [], name = JStr (ascii ''attachment_1''), mime_type = JStr [],
              content = None, download_url = JStr s\<rparr>]"
    by (simp add: attachment_descriptors_def files_descriptors_def ext_filenames_def
        file_descriptor_def enumerate_eq_zip)
qed

theorem bare_url_descriptor_witness:
  "attachment_descriptors (loads_table []) (url_control (JStr (ascii ''http://x/y.pdf''))) =
        Inr [\<lparr>file_token = JStr [], name = JStr (ascii ''attachment''), mime_type = JStr [],
              content = None, download_url = JStr (ascii ''http://x/y.pdf'')\<rparr>]
   \<and> attachment_descriptors (loads_table []) (url_control (JList [JStr (ascii ''http://x/y.pdf'')])) =
        Inr [\<lparr>file_token = JStr [], name = JStr (ascii ''attachment_1''), mime_type = JStr [],
              content = None, download_url = JStr (ascii ''http://x/y.pdf'')\<rparr>]"
proof -
  have h: "startswith (ascii ''http://x/y.pdf'') ''http''"
    by (simp add: startswith_def ascii_def)
  have 1: "loads_table [] (ascii ''http://x/y.pdf'') = Inl JSONDecodeError"
    by (simp add: loads_table_def)
  have 2: "dict_get (url_control (JStr (ascii ''http://x/y.pdf''))) ''value'' = JStr (ascii ''http://x/y.pdf'')"
    by (simp add: url_control_def dict_get_def ascii_def)
  have 3: "dict_get (url_control (JList [JStr (ascii ''http://x/y.pdf'')])) ''value'' = JList [JStr (ascii ''http://x/y.pdf'')]"
    by (simp add: url_control_def dict_get_def ascii_def)
  have 4: "dict_get (url_control (JList [JStr (ascii ''http://x/y.pdf'')])) ''ext'' = JNull"
    by (simp add: url_control_def dict_get_def ascii_def)
  from bare_url_descriptor [of "loads_table []" "ascii ''http://x/y.pdf''" "url_control (JStr (ascii ''http://x/y.pdf''))"]
       bare_url_descriptor [of "loads_table []" "ascii ''http://x/y.pdf''" "url_control (JList [JStr (ascii ''http://x/y.pdf'')])"]
       h 1 2 3 4
  show ?thesis by blast
qed

text \<open>
  C3 as stated fails: for the bare URL \<open>http://x/y.pdf\<close> the name is \<open>attachment\<close>.
\<close>

theorem scenario4_counterexample:
  "map_sum id (map name)
       (attachment_descriptors (loads_table []) (url_control (JStr (ascii ''http://x/y.pdf''))))
     = Inr [JStr (ascii ''attachment'')]
   \<and> JStr (ascii ''attachment'') \<noteq> JStr (ascii ''attachment_1'')"
  by (simp add: attachment_descriptors_def url_control_def dict_get_def startswith_def
      loads_table_def ascii_def)

text \<open>
  C4, as the code has it. Every descriptor the walker emits has no content, and each of
  its file token and download URL is either truthy or the empty string. A descriptor
  built from a URL entry has an empty token and a truthy URL; one built from a dict
  entry has a truthy token exactly when the entry holds a truthy \<open>file_token\<close> or
  \<open>token\<close>, and a truthy URL exactly when it holds a truthy \<open>url\<close> or
  \<open>download_url\<close>, so both can be empty.
\<close>

theorem descriptor_construction:
  "(extract_attachments_recursive loads controls [] = Inr found \<and> d \<in> set found
      \<longrightarrow> well_formed_descriptor d)
   \<and> (d \<in> set (file_descriptor filenames i (JStr s)) \<longrightarrow>
        file_token d = JStr [] \<and> truthy (download_url d))
   \<and> (d \<in> set (file_descriptor filenames i (JDict kvs)) \<longrightarrow>
        (truthy (file_token d)
           = (truthy (dict_get kvs ''file_token'') \<or> truthy (dict_get kvs ''token'')))
      \<and> (truthy (download_url d)
           = (truthy (dict_get kvs ''url'') \<or> truthy (dict_get kvs ''download_url''))))"
proof (intro conjI impI)
  assume a: "extract_attachments_recursive loads controls [] = Inr found \<and> d \<in> set found"
  then have "resolve_all loads (attachment_controls controls) = Inr found"
    by (simp add: walker_flatten(1) split: sum.splits)
  then obtain each where
    m: "map (attachment_descriptors loads) (attachment_controls controls) = map Inr each"
    and f: "found = concat each"
    using resolve_all_per_control [of loads "attachment_controls controls" found] by blast
  from a f obtain ds where ds: "ds \<in> set each" and d: "d \<in> set ds" by auto
  from ds obtain k where k: "k < length each" "each ! k = ds" by (auto simp: in_set_conv_nth)
  from m have l: "length (attachment_controls controls) = length each"
    using length_map by metis
  from m k l have "attachment_descriptors loads (attachment_controls controls ! k) = Inr ds"
    using nth_map [of k "attachment_controls controls" "attachment_descriptors loads"]
      nth_map [of k each Inr] by simp
  from attachment_descriptors_wf [OF this d] show "well_formed_descriptor d" .
next
  assume "d \<in> set (file_descriptor filenames i (JStr s))"
  then show "file_token d = JStr []" and "truthy (download_url d)"
    by (auto simp: file_descriptor_def startswith_def ascii_def split: if_splits)
next
  assume a: "d \<in> set (file_descriptor filenames i (JDict kvs))"
  then show "truthy (file_token d)
           = (truthy (dict_get kvs ''file_token'') \<or> truthy (dict_get kvs ''token''))"
    by (auto simp: file_descriptor_def py_or_def)
  from a show "truthy (download_url d)
           = (truthy (dict_get kvs ''url'') \<or> truthy (dict_get kvs ''download_url''))"
    by (auto simp: file_descriptor_def py_or_def)
qed

theorem descriptor_construction_witness:
  "well_formed_descriptor named_only_descriptor
   \<and> truthy (file_token named_only_descriptor) = False
   \<and> truthy (download_url named_only_descriptor) = False"
proof -
  have m: "extract_attachments_recursive (loads_table []) [named_only_control] []
             = Inr [named_only_descriptor] \<and> named_only_descriptor \<in> set [named_only_descriptor]"
    by (subst named_only_eval) simp
  have f: "named_only_descriptor \<in> set (file_descriptor [] 0 (JDict [(ascii ''name'', JStr (ascii ''a.pdf''))]))"
    unfolding named_only_descriptor_def
    by (simp add: file_descriptor_def dict_get_def dict_get_default_def py_or_def ascii_def)
  have g: "\<not> truthy (dict_get [(ascii ''name'', JStr (ascii ''a.pdf''))] k)"
    if "k \<in> {''file_token'', ''token'', ''url'', ''download_url''}" for k
    using that by (auto simp: dict_get_def ascii_def)
  from descriptor_construction [where d = named_only_descriptor and loads = "loads_table []"
      and controls = "[named_only_control]" and found = "[named_only_descriptor]"
      and filenames = "[]" and i = 0 and kvs = "[(ascii ''name'', JStr (ascii ''a.pdf''))]"] m f g
  show ?thesis by simp
qed

text \<open>
  C4 as stated fails: an entry that only has a name gives a descriptor whose file token
  and download URL are both empty.
\<close>

theorem descriptor_invariant_counterexample:
  "extract_attachments_recursive (loads_table []) [named_only_control] [] = Inr [named_only_descriptor]
   \<and> \<not> truthy (file_token named_only_descriptor)
   \<and> \<not> truthy (download_url named_only_descriptor)"
  using named_only_eval by (simp add: named_only_descriptor_def)

lemma limited_loads_texts:
  "limited_loads long_integer_text = Inl ValueError"
  "limited_loads deep_nesting_text = Inl RecursionError"
proof -
  show "limited_loads long_integer_text = Inl ValueError"
    by (simp add: limited_loads_def)
  have "length deep_nesting_text \<noteq> length long_integer_text"
    by (simp add: deep_nesting_text_def long_integer_text_def)
  then have "deep_nesting_text \<noteq> long_integer_text" by auto
  then show "limited_loads deep_nesting_text = Inl RecursionError"
    by (simp add: limited_loads_def)
qed

text \<open>
  C6, as the code has it. For every text that \<open>json.loads\<close> rejects with
  \<open>JSONDecodeError\<close>, \<open>extract_attachments_from_form\<close> returns the empty list and
  does not raise. A text on which \<open>json.loads\<close> raises another exception makes
  \<open>extract_attachments_from_form\<close> raise that exception: only \<open>JSONDecodeError\<close> is
  caught.
\<close>

theorem malformed_form_extraction:
  "(loads form_text = Inl JSONDecodeError
      \<longrightarrow> extract_attachments_from_form loads (JStr form_text) = Inr [])
   \<and> (loads form_text = Inl e \<and> e \<noteq> JSONDecodeError
      \<longrightarrow> extract_attachments_from_form loads (JStr form_text) = Inl e)"
  by (cases e) (simp_all add: extract_attachments_from_form_def json_loads_def)

theorem malformed_form_extraction_witness:
  "extract_attachments_from_form (loads_table []) (JStr (ascii ''[{broken'')) = Inr []
   \<and> extract_attachments_from_form limited_loads (JStr deep_nesting_text) = Inl RecursionError"
proof -
  have 1: "loads_table [] (ascii ''[{broken'') = Inl JSONDecodeError"
    by (simp add: loads_table_def)
  have 2: "limited_loads deep_nesting_text = Inl RecursionError \<and> RecursionError \<noteq> JSONDecodeError"
    by (simp add: limited_loads_texts)
  from malformed_form_extraction [of "loads_table []" "ascii ''[{broken''"] 1
    malformed_form_extraction [of limited_loads deep_nesting_text RecursionError] 2
  show ?thesis by blast
qed

text \<open>
  C6 as stated fails: on an opening bracket followed by 5000 digits, which is not JSON,
  \<open>json.loads\<close> raises \<open>ValueError\<close> and so does the extraction; on 100000 opening
  brackets both raise \<open>RecursionError\<close>.
\<close>

theorem malformed_form_counterexample:
  "extract_attachments_from_form limited_loads (JStr long_integer_text) = Inl ValueError
   \<and> extract_attachments_from_form limited_loads (JStr deep_nesting_text) = Inl RecursionError"
  by (simp add: extract_attachments_from_form_def json_loads_def limited_loads_texts)

text \<open>
  Inside \<open>_process_approval\<close> the extraction is not reached with a text that
  \<open>json.loads\<close> rejects: the parse of line 94 has no handler and raises first.
\<close>

lemma process_approval_malformed_form:
  assumes "get_approval_instance client instance_code = Inr (JDict fields_of_instance)"
    and "dict_get_default fields_of_instance ''form'' (JStr (ascii ''[]'')) = JStr form_text"
    and "loads form_text = Inl e"
  shows "process_approval client settings send loads repr instance_code = Inl e"
  using assms by (simp add: process_approval_def json_loads_def)

section \<open>Properties of the router\<close>

lemma distinct_attrs: "distinct (map fst APPROVAL_EMAIL_ATTRS)"
  by (simp add: APPROVAL_EMAIL_ATTRS_def name_feiyongbaoxiao_def name_fukuan_def name_fukuan_ruidian_duigong_shic_def ascii_def)

text \<open>
  C9. The router is a total function of the name. It returns nothing when the name is
  not a key of \<open>APPROVAL_EMAIL_ATTRS\<close> and when the address configured for it is the
  empty string; when it returns an address, the address is non-empty and is the one
  configured for exactly that name.
\<close>

theorem get_target_email_absent:
  "(approval_name \<notin> fst ` set APPROVAL_EMAIL_ATTRS \<longrightarrow> get_target_email settings approval_name = None)
   \<and> ((approval_name, attr) \<in> set APPROVAL_EMAIL_ATTRS \<and> attr settings = []
        \<longrightarrow> get_target_email settings approval_name = None)
   \<and> (get_target_email settings approval_name = Some email
        \<longrightarrow> email \<noteq> [] \<and> (\<exists>a. (approval_name, a) \<in> set APPROVAL_EMAIL_ATTRS \<and> a settings = email))"
proof (intro conjI impI)
  assume "approval_name \<notin> fst ` set APPROVAL_EMAIL_ATTRS"
  then have "map_of APPROVAL_EMAIL_ATTRS approval_name = None"
    by (simp add: map_of_eq_None_iff)
  then show "get_target_email settings approval_name = None"
    by (simp add: get_target_email_def)
next
  assume "(approval_name, attr) \<in> set APPROVAL_EMAIL_ATTRS \<and> attr settings = []"
  then have "map_of APPROVAL_EMAIL_ATTRS approval_name = Some attr" and "attr settings = []"
    using distinct_attrs by (simp_all add: map_of_is_SomeI)
  then show "get_target_email settings approval_name = None"
    by (simp add: get_target_email_def)
next
  assume a: "get_target_email settings approval_name = Some email"
  then obtain a where m: "map_of APPROVAL_EMAIL_ATTRS approval_name = Some a"
    by (auto simp: get_target_email_def split: option.splits)
  with a have e: "a settings = email" "email \<noteq> []"
    by (auto simp: get_target_email_def Let_def split: if_splits)
  from m have "(approval_name, a) \<in> set APPROVAL_EMAIL_ATTRS" by (rule map_of_SomeD)
  with e show "email \<noteq> []" and "\<exists>a. (approval_name, a) \<in> set APPROVAL_EMAIL_ATTRS \<and> a settings = email"
    by auto
qed

theorem get_target_email_absent_witness:
  "get_target_email settings0 (ascii ''unknown'') = None
   \<and> get_target_email settings0 name_feiyongbaoxiao = None
   \<and> get_target_email settings0 (name_fukuan @ ascii ''test'') = Some (ascii ''a@b.se'')"
proof -
  have 1: "ascii ''unknown'' \<notin> fst ` set APPROVAL_EMAIL_ATTRS"
    by (simp add: APPROVAL_EMAIL_ATTRS_def name_feiyongbaoxiao_def name_fukuan_def name_fukuan_ruidian_duigong_shic_def ascii_def)
  have 2: "(name_feiyongbaoxiao, email_feiyongbaoxiao) \<in> set APPROVAL_EMAIL_ATTRS \<and> email_feiyongbaoxiao settings0 = []"
    by (simp add: APPROVAL_EMAIL_ATTRS_def settings0_def)
  have 3: "get_target_email settings0 (name_fukuan @ ascii ''test'') = Some (ascii ''a@b.se'')"
    by (simp add: get_target_email_def APPROVAL_EMAIL_ATTRS_def name_feiyongbaoxiao_def name_fukuan_def name_fukuan_ruidian_duigong_shic_def ascii_def settings0_def)
  from get_target_email_absent [where approval_name = "ascii ''unknown''" and settings = settings0] 1
  have a: "get_target_email settings0 (ascii ''unknown'') = None" by blast
  from get_target_email_absent [where approval_name = name_feiyongbaoxiao
      and attr = email_feiyongbaoxiao and settings = settings0] 2
  have b: "get_target_email settings0 name_feiyongbaoxiao = None" by blast
  from a b 3 show ?thesis by simp
qed

section \<open>Properties of the field loop\<close>

text \<open>The two conditions the loop tests a field with, and the amount text of variant A.\<close>

definition is_title_field :: "json \<Rightarrow> bool" where
  "is_title_field field = (case field of
      JDict kvs \<Rightarrow> dict_get kvs ''name'' = JStr title_label
                    \<and> dict_get kvs ''type'' = JStr (ascii ''input'')
    | _ \<Rightarrow> False)"

definition is_amount_field :: "json \<Rightarrow> bool" where
  "is_amount_field field = (case field of
      JDict kvs \<Rightarrow> dict_get kvs ''name'' = JStr amount_label
                    \<and> dict_get kvs ''type'' = JStr (ascii ''amount'')
    | _ \<Rightarrow> False)"

definition amount_text :: "repr \<Rightarrow> (pystr \<times> json) list \<Rightarrow> json" where
  "amount_text repr kvs =
     JStr (py_str repr (dict_get_default kvs ''value'' (JStr [])) @ ascii '' ''
           @ py_str repr (case dict_get_default kvs ''ext'' (JDict []) of
                            JDict ext \<Rightarrow> dict_get_default ext ''currency'' (JStr (ascii ''SEK''))
                          | _ \<Rightarrow> JStr (ascii ''SEK'')))"




text \<open>Forms to run the loop on.\<close>

definition title_control :: "string \<Rightarrow> (pystr \<times> json) list" where
  "title_control v = [(ascii ''name'', JStr title_label), (ascii ''type'', JStr (ascii ''input'')),
                      (ascii ''value'', JStr (ascii v))]"

definition amount_control :: "string \<Rightarrow> string \<Rightarrow> (pystr \<times> json) list" where
  "amount_control v c = [(ascii ''name'', JStr amount_label), (ascii ''type'', JStr (ascii ''amount'')),
                      (ascii ''value'', JStr (ascii v)),
                      (ascii ''ext'', JDict [(ascii ''currency'', JStr (ascii c))])]"

definition repeated_form :: "json list" where
  "repeated_form = [JDict (title_control ''Taxi''), JDict (amount_control ''100'' ''USD''),
                    JDict (title_control ''Bus''), JDict (amount_control ''200'' ''EUR'')]"











lemma aggregate_fields_append:
  "aggregate_fields loads repr (xs @ ys) st =
     (case aggregate_fields loads repr xs st of
        Inl e \<Rightarrow> Inl e
      | Inr st' \<Rightarrow> aggregate_fields loads repr ys st')"
  by (induction xs arbitrary: st) (auto split: sum.splits)

lemma input_not_amount: "JStr (ascii ''input'') \<noteq> JStr (ascii ''amount'')"
  by (simp add: ascii_def)

lemma field_step_title:
  "is_title_field (JDict kvs) \<Longrightarrow>
     field_step loads repr st (JDict kvs) = Inr (dict_get_default kvs ''value'' (JStr []), snd st)"
  by (simp add: is_title_field_def field_step_def)

lemma field_step_amount:
  "is_amount_field (JDict kvs) \<Longrightarrow>
     field_step loads repr st (JDict kvs) = Inr (fst st, amount_text repr kvs)"
  using input_not_amount
  by (auto simp: is_amount_field_def field_step_def amount_text_def Let_def)

lemma field_step_keeps_title:
  "\<not> is_title_field field \<Longrightarrow> field_step loads repr st field = Inr st' \<Longrightarrow> fst st' = fst st"
  by (cases field)
     (auto simp: is_title_field_def field_step_def Let_def split: if_splits json.splits sum.splits)

lemma field_step_keeps_amount:
  "\<not> is_amount_field field \<Longrightarrow> truthy (snd st) \<Longrightarrow> field_step loads repr st field = Inr st'
     \<Longrightarrow> snd st' = snd st"
  by (cases field)
     (auto simp: is_amount_field_def field_step_def Let_def split: if_splits json.splits sum.splits)

lemma aggregate_keeps_title:
  "\<forall>p \<in> set post. \<not> is_title_field p \<Longrightarrow> aggregate_fields loads repr post st = Inr st'
     \<Longrightarrow> fst st' = fst st"
proof (induction post arbitrary: st)
  case Nil
  then show ?case by simp
next
  case (Cons p post)
  from Cons.prems(2) obtain st1 where 1: "field_step loads repr st p = Inr st1"
    and 2: "aggregate_fields loads repr post st1 = Inr st'"
    by (auto split: sum.splits)
  from Cons.prems(1) 1 have "fst st1 = fst st" by (auto dest: field_step_keeps_title)
  moreover from Cons.IH [OF _ 2] Cons.prems(1) have "fst st' = fst st1" by simp
  ultimately show ?case by simp
qed

lemma aggregate_keeps_amount:
  "\<forall>p \<in> set post. \<not> is_amount_field p \<Longrightarrow> truthy (snd st)
     \<Longrightarrow> aggregate_fields loads repr post st = Inr st' \<Longrightarrow> snd st' = snd st"
proof (induction post arbitrary: st)
  case Nil
  then show ?case by simp
next
  case (Cons p post)
  from Cons.prems(3) obtain st1 where 1: "field_step loads repr st p = Inr st1"
    and 2: "aggregate_fields loads repr post st1 = Inr st'"
    by (auto split: sum.splits)
  from Cons.prems(1,2) 1 have e: "snd st1 = snd st" by (auto dest: field_step_keeps_amount)
  with Cons.prems(2) have "truthy (snd st1)" by simp
  from Cons.IH [OF _ this 2] Cons.prems(1) have "snd st' = snd st1" by simp
  with e show ?case by simp
qed

lemma truthy_amount_text: "truthy (amount_text repr kvs)"
  by (simp add: amount_text_def ascii_def)

lemma repeated_form_eval:
  "extract_summary (loads_table []) no_repr (JList repeated_form)
     = Inr (JStr (ascii ''Bus''), JStr (ascii ''200 EUR''))"
  unfolding repeated_form_def title_control_def amount_control_def
  by (simp add: extract_summary_def py_iter_def field_step_def dict_get_def dict_get_default_def
      py_str_def title_label_def amount_label_def ascii_def)













text \<open>
  C1, as the code has it. The loop has no \<open>break\<close> for title and variant-A amount, so
  the LAST match wins: when the loop returns, the title is the value of the last
  top-level control whose name is the title label and whose type is \<open>input\<close>, and the
  amount is the text \<open>"value currency"\<close> of the last top-level control whose name is the
  amount label and whose type is \<open>amount\<close>, whatever comes before or after it.
\<close>

theorem aggregator_last_match:
  assumes "extract_summary loads repr (JList (pre @ JDict kvs # post)) = Inr (title, amount)"
  shows "(is_title_field (JDict kvs) \<and> (\<forall>p \<in> set post. \<not> is_title_field p)
            \<longrightarrow> title = dict_get_default kvs ''value'' (JStr []))
       \<and> (is_amount_field (JDict kvs) \<and> (\<forall>p \<in> set post. \<not> is_amount_field p)
            \<longrightarrow> amount = amount_text repr kvs)"
proof -
  from assms obtain st0 st1 where
    pre: "aggregate_fields loads repr pre (JStr [], JStr []) = Inr st0" and
    step: "field_step loads repr st0 (JDict kvs) = Inr st1" and
    post: "aggregate_fields loads repr post st1 = Inr (title, amount)"
    by (auto simp: extract_summary_def py_iter_def aggregate_fields_append split: sum.splits)
  show ?thesis
  proof (intro conjI impI)
    assume a: "is_title_field (JDict kvs) \<and> (\<forall>p \<in> set post. \<not> is_title_field p)"
    with step have "fst st1 = dict_get_default kvs ''value'' (JStr [])"
      by (auto simp: field_step_title)
    moreover from a post have "fst (title, amount) = fst st1"
      by (auto dest: aggregate_keeps_title)
    ultimately show "title = dict_get_default kvs ''value'' (JStr [])" by simp
  next
    assume a: "is_amount_field (JDict kvs) \<and> (\<forall>p \<in> set post. \<not> is_amount_field p)"
    with step have s: "snd st1 = amount_text repr kvs"
      by (auto simp: field_step_amount)
    then have "truthy (snd st1)" by (simp add: truthy_amount_text)
    with a post have "snd (title, amount) = snd st1"
      by (auto dest: aggregate_keeps_amount)
    with s show "amount = amount_text repr kvs" by simp
  qed
qed

theorem aggregator_last_match_witness:
  "extract_summary (loads_table []) no_repr (JList repeated_form)
     = Inr (JStr (ascii ''Bus''), JStr (ascii ''200 EUR''))
   \<and> JStr (ascii ''Bus'') = dict_get_default (title_control ''Bus'') ''value'' (JStr [])
   \<and> JStr (ascii ''200 EUR'') = amount_text no_repr (amount_control ''200'' ''EUR'')"
proof -
  have f1: "repeated_form = [JDict (title_control ''Taxi''), JDict (amount_control ''100'' ''USD'')]
              @ JDict (title_control ''Bus'') # [JDict (amount_control ''200'' ''EUR'')]"
    by (simp add: repeated_form_def)
  have f2: "repeated_form = [JDict (title_control ''Taxi''), JDict (amount_control ''100'' ''USD''),
               JDict (title_control ''Bus'')]
              @ JDict (amount_control ''200'' ''EUR'') # []"
    by (simp add: repeated_form_def)
  have t: "is_title_field (JDict (title_control ''Bus''))
      \<and> (\<forall>p \<in> set [JDict (amount_control ''200'' ''EUR'')]. \<not> is_title_field p)"
    by (simp add: is_title_field_def title_control_def amount_control_def dict_get_def ascii_def
        title_label_def amount_label_def)
  have a: "is_amount_field (JDict (amount_control ''200'' ''EUR'')) \<and> (\<forall>p \<in> set []. \<not> is_amount_field p)"
    by (simp add: is_amount_field_def amount_control_def dict_get_def ascii_def)
  from aggregator_last_match [OF repeated_form_eval [unfolded f1]] t
  have 1: "JStr (ascii ''Bus'') = dict_get_default (title_control ''Bus'') ''value'' (JStr [])"
    by blast
  from aggregator_last_match [OF repeated_form_eval [unfolded f2]] a
  have 2: "JStr (ascii ''200 EUR'') = amount_text no_repr (amount_control ''200'' ''EUR'')"
    by blast
  from repeated_form_eval 1 2 show ?thesis by simp
qed

text \<open>
  C1 as stated fails: with two title controls and two amount controls, the result is
  taken from the second of each, not from the first.
\<close>

theorem first_match_counterexample:
  "extract_summary (loads_table []) no_repr (JList repeated_form)
     = Inr (JStr (ascii ''Bus''), JStr (ascii ''200 EUR''))
   \<and> find is_title_field repeated_form = Some (JDict (title_control ''Taxi''))
   \<and> find is_amount_field repeated_form = Some (JDict (amount_control ''100'' ''USD''))"
proof -
  have "find is_title_field repeated_form = Some (JDict (title_control ''Taxi''))"
    unfolding repeated_form_def title_control_def amount_control_def
    by (simp add: is_title_field_def dict_get_def ascii_def title_label_def)
  moreover have "find is_amount_field repeated_form = Some (JDict (amount_control ''100'' ''USD''))"
    unfolding repeated_form_def title_control_def amount_control_def
    by (simp add: is_amount_field_def dict_get_def ascii_def title_label_def amount_label_def)
  ultimately show ?thesis using repeated_form_eval by simp
qed




section \<open>Properties of the download step\<close>

text \<open>
  The download attempts of a batch: the attachments whose URL resolves to a truthy value,
  in order, each with its URL; and what the \<open>k\<close>-th attempt adds to the result, the
  attachment with its content when the download returns, nothing when it raises.
\<close>

definition resolved :: "(json \<rightharpoonup> json) \<Rightarrow> AttachmentInfo list \<Rightarrow> (AttachmentInfo \<times> json) list" where
  "resolved token_to_url batch =
     concat (map (\<lambda>a. case resolve_url token_to_url a of
                          Inr url \<Rightarrow> (if truthy url then [(a, url)] else [])
                        | Inl e \<Rightarrow> []) batch)"

definition fetched :: "FeishuClient \<Rightarrow> nat \<times> AttachmentInfo \<times> json \<Rightarrow> AttachmentInfo list" where
  "fetched client attempt =
     (case attempt of (k, a, url) \<Rightarrow>
        (case download_file client k url of
           Some bytes \<Rightarrow> [a\<lparr>content := Some bytes\<rparr>]
         | None \<Rightarrow> []))"

definition resolvable :: "AttachmentInfo \<Rightarrow> bool" where
  "resolvable a = (truthy (download_url a) \<or> hashable (file_token a))"

text \<open>A batch, an approval record and two remote sides to run the step on.\<close>

definition three_urls :: "AttachmentInfo list" where
  "three_urls = map (\<lambda>u. \<lparr>file_token = JStr [], name = JStr (ascii ''f''), mime_type = JStr [],
                             content = None, download_url = JStr (ascii u)\<rparr>)
                    [''http://a/1'', ''http://a/2'', ''http://a/3'']"

definition instance_record :: "(pystr \<times> json) list" where
  "instance_record = [(ascii ''approval_name'', JStr (name_fukuan @ ascii ''test'')),
                      (ascii ''form'', JStr (ascii ''FORM''))]"

definition form_loads :: loads where
  "form_loads = loads_table [(''FORM'', JList [two_file_control])]"

definition flaky_client :: FeishuClient where
  "flaky_client = \<lparr>get_approval_instance = (\<lambda>code. Inr (JDict instance_record)),
                    get_file_download_urls = (\<lambda>tokens. Inl RemoteError),
                    download_file = (\<lambda>n url. if n = 1 then None else Some [of_nat n])\<rparr>"

definition offline_client :: FeishuClient where
  "offline_client = \<lparr>get_approval_instance = (\<lambda>code. Inr (JDict instance_record)),
                    get_file_download_urls = (\<lambda>tokens. Inl RemoteError),
                    download_file = (\<lambda>n url. None)\<rparr>"

definition failing_send :: "Email \<Rightarrow> error option" where
  "failing_send mail = Some RemoteError"

lemma resolve_url_reads:
  "truthy (download_url a) \<Longrightarrow> resolve_url token_to_url a = Inr (download_url a)"
  "\<not> truthy (download_url a) \<Longrightarrow> hashable (file_token a) \<Longrightarrow> token_to_url (file_token a) = Some url
     \<Longrightarrow> resolve_url token_to_url a = Inr url"
  "\<not> truthy (download_url a) \<Longrightarrow> hashable (file_token a) \<Longrightarrow> token_to_url (file_token a) = None
     \<Longrightarrow> resolve_url token_to_url a = Inr JNull"
  by (simp_all add: resolve_url_def)

lemma resolve_url_resolvable:
  "resolvable a \<Longrightarrow> \<exists>url. resolve_url token_to_url a = Inr url"
  by (auto simp: resolvable_def resolve_url_def)

lemma download_loop_isolated:
  "list_all resolvable batch \<Longrightarrow>
     download_loop client token_to_url n batch downloaded
       = Inr (downloaded @ concat (map (fetched client) (enumerate n (resolved token_to_url batch))))"
proof (induction batch arbitrary: n downloaded)
  case Nil
  then show ?case by (simp add: resolved_def)
next
  case (Cons a batch)
  then have r: "resolvable a" and rest: "list_all resolvable batch" by simp_all
  from resolve_url_resolvable [OF r] obtain url where u: "resolve_url token_to_url a = Inr url"
    by blast
  have split: "resolved token_to_url (a # batch)
      = (if truthy url then [(a, url)] else []) @ resolved token_to_url batch"
    by (simp add: resolved_def u)
  show ?case
  proof (cases "truthy url")
    case False
    with u split Cons.IH [OF rest] show ?thesis by simp
  next
    case True
    with u split Cons.IH [OF rest] show ?thesis
      by (cases "download_file client n url") (simp_all add: fetched_def)
  qed
qed

lemma two_file_form_eval:
  "extract_attachments_from_form form_loads (JStr (ascii ''FORM'')) =
     Inr [\<lparr>file_token = JStr [], name = JStr (ascii ''attachment_1''), mime_type = JStr [],
           content = None, download_url = JStr (ascii ''http://a/1'')\<rparr>,
          \<lparr>file_token = JStr [], name = JStr (ascii ''attachment_2''), mime_type = JStr [],
           content = None, download_url = JStr (ascii ''http://a/2'')\<rparr>]"
proof -
  have "form_loads (ascii ''FORM'') = Inr (JList [two_file_control])"
    by (simp add: form_loads_def loads_table_def ascii_def)
  then show ?thesis
    unfolding extract_attachments_from_form_def json_loads_def py_iter_def
    by (simp add: two_file_eval del: extract_attachments_recursive.simps)
qed

lemma three_urls_resolved:
  "resolved Map.empty three_urls =
     [(three_urls ! 0, JStr (ascii ''http://a/1'')), (three_urls ! 1, JStr (ascii ''http://a/2'')),
      (three_urls ! 2, JStr (ascii ''http://a/3''))]"
  by (simp add: resolved_def three_urls_def resolve_url_def ascii_def)

text \<open>
  C8. For every batch whose URLs resolve without raising, \<open>download_attachments\<close>
  returns, in order, exactly the attachments whose own download returned, each with its
  content: a download that raises removes that attachment only and the loop goes on.
  And when the batch is empty or no download succeeds, \<open>_process_approval\<close> ends in a
  skip, whatever the mail-delivery collaborator would do: it is not called.
\<close>

theorem download_isolation:
  assumes "list_all resolvable batch"
    and "token_to_url_of client batch = Inr token_to_url"
  shows "download_attachments client batch
           = Inr (concat (map (fetched client) (enumerate 0 (resolved token_to_url batch))))
       \<and> (get_approval_instance client instance_code = Inr (JDict inst)
          \<and> json_loads loads (dict_get_default inst ''form'' (JStr (ascii ''[]''))) = Inr form_data
          \<and> target_email_of settings (dict_get_default inst ''approval_name'' (JStr [])) = Inr (Some address)
          \<and> extract_summary loads repr form_data = Inr summary
          \<and> extract_attachments_from_form loads (dict_get_default inst ''form'' (JStr (ascii ''[]''))) = Inr batch
          \<and> concat (map (fetched client) (enumerate 0 (resolved token_to_url batch))) = []
          \<longrightarrow> process_approval client settings send loads repr instance_code
                = Inr (Skipped (if batch = [] then NoAttachments else NoneDownloaded)))"
proof (intro conjI impI)
  show d: "download_attachments client batch
           = Inr (concat (map (fetched client) (enumerate 0 (resolved token_to_url batch))))"
    using assms
    by (cases "batch = []") (simp_all add: download_attachments_def download_loop_isolated resolved_def)
  assume a: "get_approval_instance client instance_code = Inr (JDict inst)
          \<and> json_loads loads (dict_get_default inst ''form'' (JStr (ascii ''[]''))) = Inr form_data
          \<and> target_email_of settings (dict_get_default inst ''approval_name'' (JStr [])) = Inr (Some address)
          \<and> extract_summary loads repr form_data = Inr summary
          \<and> extract_attachments_from_form loads (dict_get_default inst ''form'' (JStr (ascii ''[]''))) = Inr batch
          \<and> concat (map (fetched client) (enumerate 0 (resolved token_to_url batch))) = []"
  with d have e: "download_attachments client batch = Inr []" by simp
  obtain ti am where s: "summary = (ti, am)" by (cases summary)
  show "process_approval client settings send loads repr instance_code
                = Inr (Skipped (if batch = [] then NoAttachments else NoneDownloaded))"
  proof (cases "batch = []")
    case True
    with a s show ?thesis by (simp add: process_approval_def)
  next
    case False
    with a s e show ?thesis by (simp add: process_approval_def)
  qed
qed

theorem download_isolation_witness:
  "download_attachments flaky_client three_urls
     = Inr [(three_urls ! 0)\<lparr>content := Some [0]\<rparr>, (three_urls ! 2)\<lparr>content := Some [2]\<rparr>]
   \<and> process_approval offline_client settings0 failing_send form_loads no_repr (JStr (ascii ''X1''))
       = Inr (Skipped NoneDownloaded)"
proof -
  let ?batch = "[\<lparr>file_token = JStr [], name = JStr (ascii ''attachment_1''), mime_type = JStr [],
           content = None, download_url = JStr (ascii ''http://a/1'')\<rparr>,
          \<lparr>file_token = JStr [], name = JStr (ascii ''attachment_2''), mime_type = JStr [],
           content = None, download_url = JStr (ascii ''http://a/2'')\<rparr>]"
  have r1: "list_all resolvable three_urls"
    by (simp add: three_urls_def resolvable_def ascii_def)
  have t1: "token_to_url_of flaky_client three_urls = Inr Map.empty"
    by (simp add: token_to_url_of_def three_urls_def ascii_def)
  have f1: "concat (map (fetched flaky_client) (enumerate 0 (resolved Map.empty three_urls)))
      = [(three_urls ! 0)\<lparr>content := Some [0]\<rparr>, (three_urls ! 2)\<lparr>content := Some [2]\<rparr>]"
    unfolding three_urls_resolved by (simp add: fetched_def flaky_client_def)
  have r2: "list_all resolvable ?batch"
    by (simp add: resolvable_def ascii_def)
  have t2: "token_to_url_of offline_client ?batch = Inr Map.empty"
    by (simp add: token_to_url_of_def ascii_def)
  have f2: "concat (map (fetched offline_client) (enumerate 0 (resolved Map.empty ?batch))) = []"
    by (simp add: resolved_def resolve_url_def fetched_def offline_client_def ascii_def)
  have i: "get_approval_instance offline_client (JStr (ascii ''X1'')) = Inr (JDict instance_record)"
    by (simp add: offline_client_def)
  have fj: "dict_get_default instance_record ''form'' (JStr (ascii ''[]'')) = JStr (ascii ''FORM'')"
    by (simp add: instance_record_def dict_get_default_def ascii_def)
  have an: "dict_get_default instance_record ''approval_name'' (JStr [])
       = JStr (name_fukuan @ ascii ''test'')"
    by (simp add: instance_record_def dict_get_default_def ascii_def)
  have l: "json_loads form_loads (JStr (ascii ''FORM'')) = Inr (JList [two_file_control])"
    by (simp add: json_loads_def form_loads_def loads_table_def ascii_def)
  have te: "target_email_of settings0 (JStr (name_fukuan @ ascii ''test'')) = Inr (Some (ascii ''a@b.se''))"
    by (simp add: target_email_of_def get_target_email_def APPROVAL_EMAIL_ATTRS_def
        name_feiyongbaoxiao_def name_fukuan_def name_fukuan_ruidian_duigong_shic_def ascii_def settings0_def)
  have s: "extract_summary form_loads no_repr (JList [two_file_control]) = Inr (JStr [], JStr [])"
    unfolding two_file_control_def
    by (simp add: extract_summary_def py_iter_def field_step_def dict_get_def ascii_def)
  from download_isolation [OF r1 t1] f1
  have 1: "download_attachments flaky_client three_urls
     = Inr [(three_urls ! 0)\<lparr>content := Some [0]\<rparr>, (three_urls ! 2)\<lparr>content := Some [2]\<rparr>]"
    by simp
  from download_isolation [OF r2 t2, where instance_code = "JStr (ascii ''X1'')"
      and inst = instance_record and loads = form_loads and form_data = "JList [two_file_control]"
      and settings = settings0 and address = "ascii ''a@b.se''" and repr = no_repr
      and summary = "(JStr [], JStr [])" and send = failing_send]
    i fj an l te s two_file_form_eval f2
  have "process_approval offline_client settings0 failing_send form_loads no_repr
      (JStr (ascii ''X1'')) = Inr (Skipped NoneDownloaded)"
    by simp
  with 1 show ?thesis by simp
qed

section \<open>Properties of the event gate\<close>





text \<open>What the gate reads: the first truthy of three places, the third inside \<open>object\<close>.\<close>

lemma first_of_reads:
  assumes "dict_get_default event_data ''object'' (JDict []) = JDict inner"
  shows "first_of (JDict event_data) k1 k2 k3
           = Inr (py_or (dict_get event_data k1) (py_or (dict_get event_data k2) (dict_get inner k3)))"
  using assms by (simp add: first_of_def py_or_def)

lemma event_status_reads:
  assumes "dict_get_default envelope ''event'' (JDict []) = JDict event_data"
    and "dict_get_default event_data ''object'' (JDict []) = JDict inner"
  shows "event_status (JDict envelope)
           = Inr (py_or (dict_get event_data ''status'')
                    (py_or (dict_get event_data ''instance_status'') (dict_get inner ''status'')))"
    and "event_instance_code (JDict envelope)
           = Inr (py_or (dict_get event_data ''instance_code'')
                    (py_or (dict_get event_data ''approval_code'') (dict_get inner ''instance_code'')))"
  using assms by (simp_all add: event_status_def event_instance_code_def py_get_def first_of_reads)





section \<open>Encryption of configuration values (utils/crypto_utils.py)\<close>

text \<open>
  \<open>str.encode()\<close> and \<open>bytes.decode()\<close>: strict UTF-8. A surrogate cannot be
  encoded; an overlong form, a surrogate, a value above U+10FFFF and a broken sequence
  cannot be decoded.
\<close>

definition encode_char :: "nat \<Rightarrow> error + byte list" where
  "encode_char c =
     (if c < 128 then Inr [of_nat c]
      else if c < 2048 then Inr [of_nat (192 + c div 64), of_nat (128 + c mod 64)]
      else if c < 65536 then
        (if 55296 \<le> c \<and> c \<le> 57343 then Inl UnicodeEncodeError
         else Inr [of_nat (224 + c div 4096), of_nat (128 + c div 64 mod 64), of_nat (128 + c mod 64)])
      else if c < 1114112 then
        Inr [of_nat (240 + c div 262144), of_nat (128 + c div 4096 mod 64),
             of_nat (128 + c div 64 mod 64), of_nat (128 + c mod 64)]
      else Inl UnicodeEncodeError)"

fun utf8_encode :: "pystr \<Rightarrow> error + byte list" where
  "utf8_encode [] = Inr []"
| "utf8_encode (c # cs) =
     (case encode_char c of
        Inl e \<Rightarrow> Inl e
      | Inr bs \<Rightarrow> (case utf8_encode cs of Inl e \<Rightarrow> Inl e | Inr rest \<Rightarrow> Inr (bs @ rest)))"

definition continuation :: "byte \<Rightarrow> bool" where
  "continuation b = (128 \<le> unat b \<and> unat b < 192)"

definition decoded :: "nat \<Rightarrow> nat \<Rightarrow> error + pystr \<Rightarrow> error + pystr" where
  "decoded lowest c rest =
     (if c < lowest \<or> (55296 \<le> c \<and> c \<le> 57343) \<or> 1114112 \<le> c then Inl UnicodeDecodeError
      else (case rest of Inl e \<Rightarrow> Inl e | Inr cs \<Rightarrow> Inr (c # cs)))"

fun utf8_decode :: "byte list \<Rightarrow> error + pystr" where
  "utf8_decode [] = Inr []"
| "utf8_decode (b # bs) =
     (if unat b < 128 then decoded 0 (unat b) (utf8_decode bs)
      else if 192 \<le> unat b \<and> unat b < 224 then
        (case bs of
           b1 # r \<Rightarrow>
             (if continuation b1 then
                decoded 128 ((unat b - 192) * 64 + (unat b1 - 128)) (utf8_decode r)
              else Inl UnicodeDecodeError)
         | _ \<Rightarrow> Inl UnicodeDecodeError)
      else if 224 \<le> unat b \<and> unat b < 240 then
        (case bs of
           b1 # b2 # r \<Rightarrow>
             (if continuation b1 \<and> continuation b2 then
                decoded 2048 ((unat b - 224) * 4096 + (unat b1 - 128) * 64 + (unat b2 - 128))
                  (utf8_decode r)
              else Inl UnicodeDecodeError)
         | _ \<Rightarrow> Inl UnicodeDecodeError)
      else if 240 \<le> unat b \<and> unat b < 248 then
        (case bs of
           b1 # b2 # b3 # r \<Rightarrow>
             (if continuation b1 \<and> continuation b2 \<and> continuation b3 then
                decoded 65536 ((unat b - 240) * 262144 + (unat b1 - 128) * 4096
                               + (unat b2 - 128) * 64 + (unat b3 - 128))
                  (utf8_decode r)
              else Inl UnicodeDecodeError)
         | _ \<Rightarrow> Inl UnicodeDecodeError)
      else Inl UnicodeDecodeError)"

text \<open>
  \<open>base64.b64encode\<close>, and \<open>base64.b64decode\<close> as the standard library decodes
  by default: text that is not ASCII is refused, characters outside the alphabet are
  skipped, decoding stops at the padding that completes a group, and a group left
  incomplete is an error.
\<close>

definition b64_char :: "nat \<Rightarrow> nat" where
  "b64_char n =
     (if n < 26 then 65 + n else if n < 52 then 71 + n else if n < 62 then n - 4
      else if n = 62 then 43 else 47)"

fun b64encode :: "byte list \<Rightarrow> pystr" where
  "b64encode [] = []"
| "b64encode [a] =
     [b64_char (unat a div 4), b64_char (unat a mod 4 * 16), 61, 61]"
| "b64encode [a, b] =
     [b64_char (unat a div 4), b64_char (unat a mod 4 * 16 + unat b div 16),
      b64_char (unat b mod 16 * 4), 61]"
| "b64encode (a # b # c # rest) =
     [b64_char (unat a div 4), b64_char (unat a mod 4 * 16 + unat b div 16),
      b64_char (unat b mod 16 * 4 + unat c div 64), b64_char (unat c mod 64)]
     @ b64encode rest"

definition b64_value :: "nat \<Rightarrow> nat option" where
  "b64_value c =
     (if 65 \<le> c \<and> c \<le> 90 then Some (c - 65)
      else if 97 \<le> c \<and> c \<le> 122 then Some (c - 71)
      else if 48 \<le> c \<and> c \<le> 57 then Some (c + 4)
      else if c = 43 then Some 62
      else if c = 47 then Some 63
      else None)"

definition emit :: "nat \<Rightarrow> error + byte list \<Rightarrow> error + byte list" where
  "emit n rest = (case rest of Inl e \<Rightarrow> Inl e | Inr bs \<Rightarrow> Inr (of_nat n # bs))"

fun a2b_base64 :: "nat \<Rightarrow> nat \<Rightarrow> nat \<Rightarrow> pystr \<Rightarrow> error + byte list" where
  "a2b_base64 quad_pos leftchar pads [] =
     (if quad_pos = 0 then Inr [] else Inl Base64Error)"
| "a2b_base64 quad_pos leftchar pads (c # cs) =
     (if c = 61 then
        (if quad_pos \<ge> 2 \<and> quad_pos + (pads + 1) \<ge> 4 then Inr []
         else a2b_base64 quad_pos leftchar (if quad_pos \<ge> 2 then pads + 1 else pads) cs)
      else (case b64_value c of
          None \<Rightarrow> a2b_base64 quad_pos leftchar pads cs
        | Some v \<Rightarrow>
            (if quad_pos = 0 then a2b_base64 1 v 0 cs
             else if quad_pos = 1 then emit (leftchar * 4 + v div 16) (a2b_base64 2 (v mod 16) 0 cs)
             else if quad_pos = 2 then emit (leftchar * 16 + v div 4) (a2b_base64 3 (v mod 4) 0 cs)
             else emit (leftchar * 64 + v) (a2b_base64 0 0 0 cs))))"

definition b64decode :: "pystr \<Rightarrow> error + byte list" where
  "b64decode s = (if list_ex (\<lambda>c. c \<ge> 128) s then Inl ValueError else a2b_base64 0 0 0 s)"

text \<open>
  \<open>encrypt\<close> and \<open>decrypt\<close>. The key is the SHA-256 digest \<open>_get_key\<close> returns,
  32 bytes that depend on the environment: a parameter. \<open>xor_key key n bs\<close> is
  \<open>bytes(a ^ b for a, b in zip(bs, key * (n // len(key) + 1)))\<close>; \<open>encrypt\<close> calls it
  with the number of characters of the plaintext, \<open>decrypt\<close> with the number of bytes
  of the ciphertext.
\<close>

definition xor_key :: "byte list \<Rightarrow> nat \<Rightarrow> byte list \<Rightarrow> byte list" where
  "xor_key key n bs =
     map (\<lambda>(a, b). a XOR b) (zip bs (concat (replicate (n div length key + 1) key)))"

definition encrypt :: "byte list \<Rightarrow> pystr \<Rightarrow> error + pystr" where
  "encrypt key plaintext =
     (case utf8_encode plaintext of
        Inl e \<Rightarrow> Inl e
      | Inr bs \<Rightarrow> Inr (ascii ''ENC:'' @ b64encode (xor_key key (length plaintext) bs)))"

definition decrypt :: "byte list \<Rightarrow> pystr \<Rightarrow> error + pystr" where
  "decrypt key ciphertext =
     (if \<not> startswith ciphertext ''ENC:'' then Inr ciphertext
      else (case b64decode (drop 4 ciphertext) of
              Inl e \<Rightarrow> Inl e
            | Inr encrypted \<Rightarrow> utf8_decode (xor_key key (length encrypted) encrypted)))"

text \<open>A plaintext of seventeen Cyrillic letters (U+0436), two bytes each, and a key.\<close>

definition long_passphrase :: pystr where
  "long_passphrase = replicate 17 1078"

definition key0 :: "byte list" where
  "key0 = map of_nat [1 ..< 33]"

section \<open>Properties of the encryption\<close>

lemma b64_value_char: "n < 64 \<Longrightarrow> b64_value (b64_char n) = Some n"
  by (auto simp: b64_value_def b64_char_def)

lemma b64_char_not_pad: "n < 64 \<Longrightarrow> b64_char n \<noteq> 61"
  by (auto simp: b64_char_def)

lemma b64_char_ascii: "n < 64 \<Longrightarrow> b64_char n < 128"
  by (auto simp: b64_char_def)

lemma unat_byte: "unat (b :: byte) < 256"
  using unsigned_less [of b, where ?'a = nat] by simp

lemma sextet_1: "y < 256 \<Longrightarrow> x div 4 * 4 + (x mod 4 * 16 + y div 16) div 16 = (x::nat)"
  by simp

lemma sextet_2: "y < 256 \<Longrightarrow> z < 256 \<Longrightarrow>
  (x mod 4 * 16 + y div 16) mod 16 * 16 + (y mod 16 * 4 + z div 64) div 4 = (y::nat)"
proof -
  assume y: "y < 256" and z: "z < 256"
  have a: "(x mod 4 * 16 + y div 16) mod 16 = y div 16"
    using y by simp
  have b: "(y mod 16 * 4 + z div 64) div 4 = y mod 16"
    using z by simp
  show ?thesis unfolding a b by simp
qed

lemma sextet_3: "z < 256 \<Longrightarrow> (y mod 16 * 4 + z div 64) mod 4 * 64 + z mod 64 = (z::nat)"
proof -
  assume z: "z < 256"
  have a: "(y mod 16 * 4 + z div 64) mod 4 = z div 64"
    using z by simp
  show ?thesis unfolding a by simp
qed

lemma sextet_2_last: "y < 256 \<Longrightarrow> (x mod 4 * 16 + y div 16) mod 16 * 16 + y mod 16 * 4 div 4 = (y::nat)"
proof -
  assume y: "y < 256"
  have a: "(x mod 4 * 16 + y div 16) mod 16 = y div 16"
    using y by simp
  show ?thesis unfolding a by simp
qed

lemma a2b_quad:
  assumes "v1 < 64" "v2 < 64" "v3 < 64" "v4 < 64"
  shows "a2b_base64 0 0 0 (b64_char v1 # b64_char v2 # b64_char v3 # b64_char v4 # cs)
    = emit (v1 * 4 + v2 div 16) (emit (v2 mod 16 * 16 + v3 div 4) (emit (v3 mod 4 * 64 + v4)
        (a2b_base64 0 0 0 cs)))"
  using assms by (simp add: b64_value_char b64_char_not_pad)

lemma a2b_pair:
  assumes "v1 < 64" "v2 < 64" "v3 < 64"
  shows "a2b_base64 0 0 0 [b64_char v1, b64_char v2, b64_char v3, 61]
    = emit (v1 * 4 + v2 div 16) (emit (v2 mod 16 * 16 + v3 div 4) (Inr []))"
  using assms by (simp add: b64_value_char b64_char_not_pad)

lemma a2b_single:
  assumes "v1 < 64" "v2 < 64"
  shows "a2b_base64 0 0 0 [b64_char v1, b64_char v2, 61, 61] = emit (v1 * 4 + v2 div 16) (Inr [])"
  using assms by (simp add: b64_value_char b64_char_not_pad)

lemma emit_unat: "emit (unat b) (Inr bs) = Inr (b # bs)"
  by (simp add: emit_def)

lemma a2b_base64_b64encode: "a2b_base64 0 0 0 (b64encode bs) = Inr bs"
proof (induction bs rule: b64encode.induct)
  case 1
  show ?case by simp
next
  case (2 a)
  have v: "unat a div 4 < 64" "unat a mod 4 * 16 < 64"
    using unat_byte [of a] by simp_all
  have 1: "unat a div 4 * 4 + unat a mod 4 * 16 div 16 = unat a" by simp
  show ?case
    unfolding b64encode.simps a2b_single [OF v] 1 emit_unat ..
next
  case (3 a b)
  have v: "unat a div 4 < 64" "unat a mod 4 * 16 + unat b div 16 < 64" "unat b mod 16 * 4 < 64"
    using unat_byte [of a] unat_byte [of b] by simp_all
  have 1: "unat a div 4 * 4 + (unat a mod 4 * 16 + unat b div 16) div 16 = unat a"
    using unat_byte [of b] by (rule sextet_1)
  have 2: "(unat a mod 4 * 16 + unat b div 16) mod 16 * 16 + unat b mod 16 * 4 div 4 = unat b"
    using unat_byte [of b] by (rule sextet_2_last)
  show ?case
    unfolding b64encode.simps a2b_pair [OF v] 1 2 emit_unat ..
next
  case (4 a b c rest)
  have v: "unat a div 4 < 64" "unat a mod 4 * 16 + unat b div 16 < 64"
    "unat b mod 16 * 4 + unat c div 64 < 64" "unat c mod 64 < 64"
    using unat_byte [of a] unat_byte [of b] unat_byte [of c] by simp_all
  have 1: "unat a div 4 * 4 + (unat a mod 4 * 16 + unat b div 16) div 16 = unat a"
    using unat_byte [of b] by (rule sextet_1)
  have 2: "(unat a mod 4 * 16 + unat b div 16) mod 16 * 16 + (unat b mod 16 * 4 + unat c div 64) div 4 = unat b"
    using unat_byte [of b] unat_byte [of c] by (rule sextet_2)
  have 3: "(unat b mod 16 * 4 + unat c div 64) mod 4 * 64 + unat c mod 64 = unat c"
    using unat_byte [of c] by (rule sextet_3)
  show ?case
    unfolding b64encode.simps append.simps a2b_quad [OF v] 1 2 3 "4.IH" emit_unat ..
qed

lemma b64encode_ascii: "\<not> list_ex (\<lambda>c. c \<ge> 128) (b64encode bs)"
proof (induction bs rule: b64encode.induct)
  case (2 a)
  show ?case using unat_byte [of a] by (simp add: b64_char_ascii not_le)
next
  case (3 a b)
  show ?case using unat_byte [of a] unat_byte [of b] by (simp add: b64_char_ascii not_le)
next
  case (4 a b c rest)
  then show ?case using unat_byte [of a] unat_byte [of b] unat_byte [of c]
    by (simp add: b64_char_ascii not_le)
qed simp

lemma b64decode_b64encode: "b64decode (b64encode bs) = Inr bs"
  by (simp add: b64decode_def b64encode_ascii a2b_base64_b64encode)

lemma length_key_stream: "length (concat (replicate m key)) = m * length key"
  by (induction m) simp_all

lemma key_stream_nth:
  "i < m * length key \<Longrightarrow> concat (replicate m key) ! i = key ! (i mod length key)"
proof (induction m arbitrary: i)
  case 0
  then show ?case by simp
next
  case (Suc m)
  show ?case
  proof (cases "i < length key")
    case True
    then show ?thesis by (simp add: nth_append)
  next
    case False
    with Suc.prems have "i - length key < m * length key" by simp
    from Suc.IH [OF this] False show ?thesis
      by (simp add: nth_append le_mod_geq)
  qed
qed

lemma xor_stream_length:
  "length (map (\<lambda>(a, b). a XOR b) (zip bs (concat (replicate m key))))
     = min (length bs) (m * length key)"
  by (simp add: length_key_stream)

lemma xor_stream_nth:
  fixes bs :: "byte list"
  shows "i < length bs \<Longrightarrow> i < m * length key \<Longrightarrow>
     map (\<lambda>(a, b). a XOR b) (zip bs (concat (replicate m key))) ! i
       = bs ! i XOR key ! (i mod length key)"
  by (simp add: length_key_stream key_stream_nth)

lemma length_xor_key:
  "length (xor_key key n bs) = min (length bs) ((n div length key + 1) * length key)"
  unfolding xor_key_def by (rule xor_stream_length)

lemma xor_key_nth:
  assumes "i < length (xor_key key n bs)"
  shows "xor_key key n bs ! i = bs ! i XOR key ! (i mod length key)"
proof -
  from assms have "i < length bs" "i < (n div length key + 1) * length key"
    unfolding length_xor_key by simp_all
  then show ?thesis unfolding xor_key_def by (rule xor_stream_nth)
qed

lemma less_next_multiple: "0 < (l::nat) \<Longrightarrow> n < (n div l + 1) * l"
  using dividend_less_div_times [of l n] by (simp add: algebra_simps)

lemma xor_key_twice:
  assumes "key \<noteq> []"
  shows "xor_key key (length (xor_key key n bs)) (xor_key key n bs)
           = take ((n div length key + 1) * length key) bs"
proof (rule nth_equalityI)
  let ?enc = "xor_key key n bs"
  from assms have l: "0 < length key" by simp
  have len: "length (xor_key key (length ?enc) ?enc) = length ?enc"
    using less_next_multiple [OF l, of "length ?enc"]
    by (simp add: length_xor_key [of key "length ?enc"])
  show "length (xor_key key (length ?enc) ?enc)
          = length (take ((n div length key + 1) * length key) bs)"
    unfolding len by (simp add: length_xor_key min.commute)
  fix i
  assume "i < length (xor_key key (length ?enc) ?enc)"
  then have i2: "i < length (xor_key key (length ?enc) ?enc)" and i1: "i < length ?enc"
    by (simp_all add: len)
  from i1 have i0: "i < (n div length key + 1) * length key"
    by (simp add: length_xor_key)
  show "xor_key key (length ?enc) ?enc ! i = take ((n div length key + 1) * length key) bs ! i"
    unfolding xor_key_nth [OF i2] xor_key_nth [OF i1] using i0
    by (simp add: xor.assoc)
qed

lemma encrypt_prefix:
  "encrypt key plaintext = Inr c \<Longrightarrow> startswith c ''ENC:''"
  by (auto simp: encrypt_def startswith_def ascii_def split: sum.splits)

lemma decrypt_plain:
  "\<not> startswith c ''ENC:'' \<Longrightarrow> decrypt key c = Inr c"
  by (simp add: decrypt_def)

lemma decrypt_encrypt:
  assumes "key \<noteq> []" and "utf8_encode plaintext = Inr bs"
  shows "\<exists>c. encrypt key plaintext = Inr c
           \<and> decrypt key c
                = utf8_decode (take ((length plaintext div length key + 1) * length key) bs)"
proof -
  let ?c = "ascii ''ENC:'' @ b64encode (xor_key key (length plaintext) bs)"
  from assms(2) have e: "encrypt key plaintext = Inr ?c"
    by (simp add: encrypt_def)
  have s: "startswith ?c ''ENC:''" by (simp add: startswith_def ascii_def)
  have d: "drop 4 ?c = b64encode (xor_key key (length plaintext) bs)" by (simp add: ascii_def)
  have "decrypt key ?c = utf8_decode (take ((length plaintext div length key + 1) * length key) bs)"
    unfolding decrypt_def d b64decode_b64encode using s
    by (simp add: xor_key_twice [OF assms(1)])
  with e show ?thesis by blast
qed

lemma unat_of_nat_byte: "n < 256 \<Longrightarrow> unat (of_nat n :: byte) = n"
  by (simp add: unat_of_nat)

lemma decode_1:
  "unat b = n \<Longrightarrow> n < 128 \<Longrightarrow> utf8_decode (b # rest) = decoded 0 n (utf8_decode rest)"
  by simp

lemma decode_2:
  "unat b = 192 + h \<Longrightarrow> h < 32 \<Longrightarrow> unat b1 = 128 + l \<Longrightarrow> l < 64 \<Longrightarrow>
     utf8_decode (b # b1 # rest) = decoded 128 (h * 64 + l) (utf8_decode rest)"
  by (simp add: continuation_def)

lemma decode_3:
  "unat b = 224 + h \<Longrightarrow> h < 16 \<Longrightarrow> unat b1 = 128 + m \<Longrightarrow> m < 64 \<Longrightarrow>
   unat b2 = 128 + l \<Longrightarrow> l < 64 \<Longrightarrow>
     utf8_decode (b # b1 # b2 # rest) = decoded 2048 (h * 4096 + m * 64 + l) (utf8_decode rest)"
  by (simp add: continuation_def)

lemma decode_4:
  "unat b = 240 + h \<Longrightarrow> h < 8 \<Longrightarrow> unat b1 = 128 + m1 \<Longrightarrow> m1 < 64 \<Longrightarrow>
   unat b2 = 128 + m2 \<Longrightarrow> m2 < 64 \<Longrightarrow> unat b3 = 128 + l \<Longrightarrow> l < 64 \<Longrightarrow>
     utf8_decode (b # b1 # b2 # b3 # rest)
       = decoded 65536 (h * 262144 + m1 * 4096 + m2 * 64 + l) (utf8_decode rest)"
  by (simp add: continuation_def)

lemma split_64: "c div 64 * 64 + c mod 64 = (c::nat)"
  by simp

lemma split_times_64: "q div 64 * 4096 + q mod 64 * 64 = (q::nat) * 64"
proof -
  have "q * 64 = (q div 64 * 64 + q mod 64) * 64" by simp
  also have "\<dots> = q div 64 * 4096 + q mod 64 * 64"
    unfolding distrib_right mult.assoc by simp
  finally show ?thesis by simp
qed

lemma split_3: "c div 4096 * 4096 + c div 64 mod 64 * 64 + c mod 64 = (c::nat)"
proof -
  have 1: "c div 4096 = c div 64 div 64" by (simp add: div_mult2_eq [symmetric])
  show ?thesis unfolding 1 split_times_64 by simp
qed

lemma split_4:
  "c div 262144 * 262144 + c div 4096 mod 64 * 4096 + c div 64 mod 64 * 64 + c mod 64 = (c::nat)"
proof -
  have 1: "c div 262144 = c div 64 div 4096" by (simp add: div_mult2_eq [symmetric])
  have 2: "c div 4096 = c div 64 div 64" by (simp add: div_mult2_eq [symmetric])
  have "c div 64 div 4096 * 262144 + c div 64 div 64 mod 64 * 4096 + c div 64 mod 64 * 64
      = (c div 64 div 4096 * 4096 + c div 64 div 64 mod 64 * 64 + c div 64 mod 64) * 64"
    by simp
  also have "\<dots> = c div 64 * 64" by (simp only: split_3)
  finally show ?thesis unfolding 1 2 by simp
qed

lemma decode_encoded_char:
  assumes "encode_char c = Inr cb" and "utf8_decode rest = Inr cs"
  shows "utf8_decode (cb @ rest) = Inr (c # cs)"
proof -
  consider (one) "c < 128" | (two) "128 \<le> c" "c < 2048"
    | (three) "2048 \<le> c" "c < 65536" "\<not> (55296 \<le> c \<and> c \<le> 57343)"
    | (four) "65536 \<le> c" "c < 1114112"
    using assms(1) by (auto simp: encode_char_def split: if_splits)
  then show ?thesis
  proof cases
    case one
    with assms(1) have cb: "cb = [of_nat c]" by (simp add: encode_char_def)
    from one have u: "unat (of_nat c :: byte) = c" by (simp add: unat_of_nat_byte)
    show ?thesis
      unfolding cb append.simps decode_1 [OF u one] assms(2) using one
      by (simp add: decoded_def)
  next
    case two
    define n0 n1 where "n0 = 192 + c div 64" and "n1 = 128 + c mod 64"
    from two assms(1) have cb: "cb = [of_nat n0, of_nat n1]"
      unfolding n0_def n1_def encode_char_def by (simp del: of_nat_add of_nat_numeral)
    from two have h: "c div 64 < 32" and l: "c mod 64 < 64" by simp_all
    from h have u0: "unat (of_nat n0 :: byte) = 192 + c div 64"
      unfolding n0_def by (intro unat_of_nat_byte) simp
    have u1: "unat (of_nat n1 :: byte) = 128 + c mod 64"
      unfolding n1_def by (intro unat_of_nat_byte) simp
    show ?thesis
      unfolding cb append.simps decode_2 [OF u0 h u1 l] assms(2) using two
      by (simp add: decoded_def)
  next
    case three
    define n0 n1 n2 where "n0 = 224 + c div 4096" and "n1 = 128 + c div 64 mod 64"
      and "n2 = 128 + c mod 64"
    from three assms(1) have cb: "cb = [of_nat n0, of_nat n1, of_nat n2]"
      unfolding n0_def n1_def n2_def encode_char_def
      by (auto simp del: of_nat_add of_nat_numeral)
    from three have h: "c div 4096 < 16" and m: "c div 64 mod 64 < 64" and l: "c mod 64 < 64"
      by simp_all
    from h have u0: "unat (of_nat n0 :: byte) = 224 + c div 4096"
      unfolding n0_def by (intro unat_of_nat_byte) simp
    have u1: "unat (of_nat n1 :: byte) = 128 + c div 64 mod 64"
      unfolding n1_def by (intro unat_of_nat_byte) simp
    have u2: "unat (of_nat n2 :: byte) = 128 + c mod 64"
      unfolding n2_def by (intro unat_of_nat_byte) simp
    show ?thesis
      unfolding cb append.simps decode_3 [OF u0 h u1 m u2 l] assms(2) split_3 using three
      by (simp add: decoded_def)
  next
    case four
    define n0 n1 n2 n3 where "n0 = 240 + c div 262144" and "n1 = 128 + c div 4096 mod 64"
      and "n2 = 128 + c div 64 mod 64" and "n3 = 128 + c mod 64"
    from four assms(1) have cb: "cb = [of_nat n0, of_nat n1, of_nat n2, of_nat n3]"
      unfolding n0_def n1_def n2_def n3_def encode_char_def
      by (auto simp del: of_nat_add of_nat_numeral)
    from four have h: "c div 262144 < 8" and m1: "c div 4096 mod 64 < 64"
      and m2: "c div 64 mod 64 < 64" and l: "c mod 64 < 64"
      by simp_all
    from h have u0: "unat (of_nat n0 :: byte) = 240 + c div 262144"
      unfolding n0_def by (intro unat_of_nat_byte) simp
    have u1: "unat (of_nat n1 :: byte) = 128 + c div 4096 mod 64"
      unfolding n1_def by (intro unat_of_nat_byte) simp
    have u2: "unat (of_nat n2 :: byte) = 128 + c div 64 mod 64"
      unfolding n2_def by (intro unat_of_nat_byte) simp
    have u3: "unat (of_nat n3 :: byte) = 128 + c mod 64"
      unfolding n3_def by (intro unat_of_nat_byte) simp
    show ?thesis
      unfolding cb append.simps decode_4 [OF u0 h u1 m1 u2 m2 u3 l] assms(2) split_4 using four
      by (simp add: decoded_def)
  qed
qed

lemma utf8_decode_encode: "utf8_encode s = Inr bs \<Longrightarrow> utf8_decode bs = Inr s"
proof (induction s arbitrary: bs)
  case Nil
  then show ?case by simp
next
  case (Cons c s)
  from Cons.prems obtain cb rest where c: "encode_char c = Inr cb"
    and r: "utf8_encode s = Inr rest" and bs: "bs = cb @ rest"
    by (auto split: sum.splits)
  from decode_encoded_char [OF c Cons.IH [OF r]] bs show ?case by simp
qed

lemma decrypt_encrypt_roundtrip:
  assumes "key \<noteq> []" and "utf8_encode plaintext = Inr bs"
    and "length bs \<le> (length plaintext div length key + 1) * length key"
  shows "\<exists>c. encrypt key plaintext = Inr c \<and> decrypt key c = Inr plaintext"
  using decrypt_encrypt [OF assms(1,2)] assms(3) utf8_decode_encode [OF assms(2)] by simp

lemma utf8_encode_ascii:
  "\<forall>c \<in> set s. c < 128 \<Longrightarrow> \<exists>bs. utf8_encode s = Inr bs \<and> length bs = length s"
  by (induction s) (auto simp: encode_char_def)

lemma decrypt_encrypt_ascii:
  assumes "key \<noteq> []" and "\<forall>c \<in> set plaintext. c < 128"
  shows "\<exists>c. encrypt key plaintext = Inr c \<and> decrypt key c = Inr plaintext"
proof -
  from utf8_encode_ascii [OF assms(2)] obtain bs where
    e: "utf8_encode plaintext = Inr bs" and l: "length bs = length plaintext"
    by blast
  from assms(1) have "0 < length key" by simp
  from less_next_multiple [OF this, of "length plaintext"] l
  have "length bs \<le> (length plaintext div length key + 1) * length key" by simp
  from decrypt_encrypt_roundtrip [OF assms(1) e this] show ?thesis .
qed

lemma utf8_encode_zhe:
  "utf8_encode (replicate n 1078) = Inr (concat (replicate n [208, 182]))"
  by (induction n) (simp_all add: encode_char_def)

lemma take_pairs:
  "take (2 * n) (concat (replicate (n + k) [a, b])) = concat (replicate n [a, b])"
  by (induction n) simp_all

text \<open>
  C10 fails on the code. \<open>encrypt\<close> sizes the key stream by the number of characters
  of the plaintext, not by the number of its bytes, so \<open>zip\<close> cuts the bytes of a
  plaintext with enough non-ASCII characters: for seventeen letters U+0436 (34 bytes, a
  key stream of 32) and every 32-byte key, \<open>encrypt\<close> returns a text with the prefix
  \<open>ENC:\<close> that \<open>decrypt\<close> turns into the first sixteen letters only.
\<close>

theorem decrypt_encrypt_truncates:
  assumes "length key = 32"
  shows "\<exists>c. encrypt key long_passphrase = Inr c \<and> startswith c ''ENC:''
           \<and> decrypt key c = Inr (take 16 long_passphrase)
           \<and> take 16 long_passphrase \<noteq> long_passphrase"
proof -
  from assms have k: "key \<noteq> []" by auto
  have e: "utf8_encode long_passphrase = Inr (concat (replicate 17 [208, 182]))"
    unfolding long_passphrase_def by (rule utf8_encode_zhe)
  have t: "take ((length long_passphrase div length key + 1) * length key)
             (concat (replicate 17 [208, 182 :: byte])) = concat (replicate 16 [208, 182])"
    using take_pairs [of 16 1 208 "182 :: byte"] by (simp add: assms long_passphrase_def)
  have d: "utf8_decode (concat (replicate 16 [208, 182])) = Inr (replicate 16 1078)"
    by (rule utf8_decode_encode) (rule utf8_encode_zhe)
  have s: "take 16 long_passphrase = replicate 16 1078"
    by (simp add: long_passphrase_def)
  have n: "take 16 long_passphrase \<noteq> long_passphrase"
  proof
    assume "take 16 long_passphrase = long_passphrase"
    then have "length (take 16 long_passphrase) = length long_passphrase" by simp
    then show False by (simp add: long_passphrase_def)
  qed
  from decrypt_encrypt [OF k e] obtain c where
    c: "encrypt key long_passphrase = Inr c"
    and "decrypt key c = utf8_decode (take ((length long_passphrase div length key + 1) * length key)
             (concat (replicate 17 [208, 182])))"
    by blast
  then have "decrypt key c = Inr (take 16 long_passphrase)" unfolding t d s by simp
  with c encrypt_prefix [OF c] n show ?thesis by blast
qed

theorem decrypt_encrypt_truncates_witness:
  "\<exists>c. encrypt key0 long_passphrase = Inr c \<and> startswith c ''ENC:''
       \<and> decrypt key0 c = Inr (take 16 long_passphrase)
       \<and> take 16 long_passphrase \<noteq> long_passphrase"
proof -
  have "length key0 = 32" by (simp add: key0_def)
  then show ?thesis by (rule decrypt_encrypt_truncates)
qed

end
